theory Spec2Isabelle
  imports Complex_Main "HOL-Library.List_Lexorder" "HOL-Library.Char_ord"
begin

section \<open>Image-rendition reconciliation (ImageComparison.jsx)\<close>

text \<open>
  A shallow embedding of the grouping engine of \<^verbatim>\<open>src/src/ImageComparison.jsx\<close>:
  the normalisation helpers, candidate extraction (\<^verbatim>\<open>putCandidate\<close>), the
  originals index (\<^verbatim>\<open>considerOriginal\<close>), the group builder and its final sort
  (\<^verbatim>\<open>processInspectionData\<close>), the two metric tables
  (\<^verbatim>\<open>computeAggregatedMetrics\<close>) and \<^verbatim>\<open>validateMetricsAlignment\<close>.

  Conventions of the embedding.
  \<^item> A field that may hold \<^verbatim>\<open>null\<close> or \<^verbatim>\<open>undefined\<close> is an
    \<open>option\<close>; the source never tells the two apart (\<^verbatim>\<open>s || ""\<close>,
    \<^verbatim>\<open>??\<close>, \<^verbatim>\<open>?.\<close>).
  \<^item> Strings are \<open>string\<close>; \<^verbatim>\<open>trim\<close> and \<^verbatim>\<open>toLowerCase\<close>
    are modelled on ASCII.
  \<^item> Counts and rendition numbers are \<open>int\<close>; means and percentages are \<open>rat\<close>
    (the rounding of JavaScript doubles is not modelled).
  \<^item> A JavaScript object or \<^verbatim>\<open>Map\<close> with string keys is an association list in
    insertion order, which is the order \<^verbatim>\<open>Object.entries\<close> and
    \<^verbatim>\<open>Map.values\<close> enumerate.
  \<^item> \<^verbatim>\<open>Array.prototype.sort\<close> is stable; with a consistent comparator its result
    is the one a stable insertion sort computes.
\<close>

subsection \<open>String helpers\<close>

definition isSpace :: "char \<Rightarrow> bool" where
  "isSpace c = (c \<in> set [CHR '' '', CHR 0x09, CHR 0x0A, CHR 0x0B, CHR 0x0C, CHR 0x0D])"

definition trim :: "string \<Rightarrow> string" where
  "trim s = rev (dropWhile isSpace (rev (dropWhile isSpace s)))"

definition toLowerChar :: "char \<Rightarrow> char" where
  "toLowerChar c =
     (case map_of (zip ''ABCDEFGHIJKLMNOPQRSTUVWXYZ'' ''abcdefghijklmnopqrstuvwxyz'') c of
        None \<Rightarrow> c
      | Some d \<Rightarrow> d)"

definition toLowerCase :: "string \<Rightarrow> string" where
  "toLowerCase s = map toLowerChar s"

fun startsWith :: "string \<Rightarrow> string \<Rightarrow> bool" where
  "startsWith s [] = True"
| "startsWith [] (p # ps) = False"
| "startsWith (c # cs) (p # ps) = (c = p \<and> startsWith cs ps)"

fun includes_str :: "string \<Rightarrow> string \<Rightarrow> bool" where
  "includes_str [] p = (p = [])"
| "includes_str (c # cs) p = (startsWith (c # cs) p \<or> includes_str cs p)"

text \<open>\<^verbatim>\<open>u || null\<close> on a string: the empty string is falsy.\<close>

definition orNull :: "string \<Rightarrow> string option" where
  "orNull s = (if s = [] then None else Some s)"

text \<open>\<^verbatim>\<open>v || d\<close> on a string that may be absent.\<close>

definition orElse :: "string option \<Rightarrow> string \<Rightarrow> string" where
  "orElse v d = (case v of None \<Rightarrow> d | Some s \<Rightarrow> if s = [] then d else s)"

text \<open>Truthiness of a string that may be absent.\<close>

definition truthy :: "string option \<Rightarrow> bool" where
  "truthy v = (case v of None \<Rightarrow> False | Some s \<Rightarrow> s \<noteq> [])"

subsection \<open>Helpers of the source (lines 75--140)\<close>

text \<open>
  A value of \<^verbatim>\<open>actionsCounterMap\<close>, classified by what \<^verbatim>\<open>Number(b)\<close> makes of
  it: \<open>Count n\<close> when it is the number \<open>n\<close>, \<open>NotANumber\<close> when it is
  \<^verbatim>\<open>NaN\<close> (an absent or non-numeric value).
\<close>

datatype counter = Count int | NotANumber

definition numberOr0 :: "counter \<Rightarrow> int" where
  "numberOr0 b = (case b of Count n \<Rightarrow> n | NotANumber \<Rightarrow> 0)"

definition sumActionMap :: "(string \<times> counter) list option \<Rightarrow> int" where
  "sumActionMap m =
     (case m of
        None \<Rightarrow> 0
      | Some kvs \<Rightarrow> foldl (\<lambda>a b. a + numberOr0 b) 0 (map snd kvs))"

definition safeUrl :: "string option \<Rightarrow> string option" where
  "safeUrl u = (case u of None \<Rightarrow> None | Some s \<Rightarrow> orNull (trim s))"

definition safeText :: "string option \<Rightarrow> string" where
  "safeText v = (case v of None \<Rightarrow> ''N/A'' | Some s \<Rightarrow> orElse (Some (trim s)) ''N/A'')"

definition norm_js :: "string option \<Rightarrow> string" where
  "norm_js s = toLowerCase (trim (case s of None \<Rightarrow> [] | Some t \<Rightarrow> t))"

definition normCam :: "string option \<Rightarrow> string option" where
  "normCam cam =
     (let c = norm_js cam in
      if startsWith c ''front'' then Some ''front''
      else if startsWith c ''rear'' then Some ''rear''
      else if startsWith c ''center'' then Some ''center''
      else orNull c)"

definition normSide :: "string option \<Rightarrow> string option" where
  "normSide side =
     (let s = norm_js side in
      if startsWith s ''left'' then Some ''left''
      else if startsWith s ''right'' then Some ''right''
      else if startsWith s ''center'' then Some ''center''
      else orNull s)"

definition isSlimOverview :: "string option \<Rightarrow> bool" where
  "isSlimOverview imageType = (norm_js imageType = ''slimoverview'')"

definition isZoomer :: "string option \<Rightarrow> bool" where
  "isZoomer imageType = includes_str (norm_js imageType) ''zoomer''"

definition isAllowedType :: "string option \<Rightarrow> bool" where
  "isAllowedType imageType = (isSlimOverview imageType \<or> isZoomer imageType)"

datatype bucketType = SlimOverview | Zoomer

definition bucketTypeOf :: "string option \<Rightarrow> bucketType option" where
  "bucketTypeOf imageType =
     (if isSlimOverview imageType then Some SlimOverview
      else if isZoomer imageType then Some Zoomer
      else None)"

subsection \<open>Raw input (the fetched inspection record)\<close>

text \<open>
  The fields the engine reads. \<open>rendition\<close> is classified by what
  \<^verbatim>\<open>Number(rendition)\<close> gives: \<open>Finite n\<close>, or \<open>NotFinite\<close> when
  \<^verbatim>\<open>Number.isFinite\<close> rejects it; \<open>None\<close> is an absent field.
  \<open>isActive\<close> is the truthiness of the raw field.
\<close>

record POV =
  simulatedCamera :: "string option"
  simulatedCameraSide :: "string option"
  serialNumber :: "int option"
  originalCameraId :: "string option"

datatype jsnum = Finite int | NotFinite

record rawImage =
  imageType :: "string option"
  pov :: "POV option"
  rendition :: "jsnum option"
  activeImage :: "string option"
  originalImage :: "string option"
  originalImageUrl :: "string option"
  originalImageWithBackground :: "string option"
  originalImageWithoutBackground :: "string option"
  status :: "string option"
  isActive :: bool
  actionsCounterMap :: "(string \<times> counter) list option"

record uvpaintData =
  images :: "rawImage list"
  uvpaintHistoryImages :: "rawImage list"

record inspection =
  inspectionId :: string
  uvpaintData :: "uvpaintData option"

definition pickOriginalUrl :: "rawImage \<Rightarrow> string option" where
  "pickOriginalUrl obj =
     (let candidates = [originalImage obj, originalImageUrl obj,
                        originalImageWithBackground obj, originalImageWithoutBackground obj]
      in case find (\<lambda>u. case u of None \<Rightarrow> False | Some s \<Rightarrow> trim s \<noteq> []) candidates of
           None \<Rightarrow> None
         | Some u \<Rightarrow> (case u of None \<Rightarrow> None | Some s \<Rightarrow> orNull (trim s)))"


subsection \<open>Candidates and their score\<close>

record candidate =
  c_imageType :: string
  c_bucketType :: bucketType
  c_status :: string
  c_activeImage :: "string option"
  c_originalImage :: "string option"
  c_image :: "string option"
  c_source :: string
  c_actions :: int
  c_isActive :: bool
  c_pov :: POV

definition srcPriority :: "string \<Rightarrow> int" where
  "srcPriority src = (if src = ''images'' then 30 else if src = ''uvpaintHistoryImages'' then 10 else 0)"

definition scoreCandidate :: "candidate \<Rightarrow> int" where
  "scoreCandidate c =
     (let hasActive = truthy (c_activeImage c);
          isActive = c_isActive c;
          src = orElse (Some (c_source c)) ''N/A''
      in (if hasActive then 100 else 0) + (if isActive then 40 else 0) + srcPriority src)"

subsection \<open>Sorting with a comparator\<close>

text \<open>
  \<^verbatim>\<open>xs.sort(cmp)\<close>: \<open>x\<close> stays before \<open>y\<close> when \<open>cmp x y \<le> 0\<close>,
  so elements that compare equal keep their input order.
\<close>

fun insert_sorted :: "('a \<Rightarrow> 'a \<Rightarrow> 'b::{linorder,zero}) \<Rightarrow> 'a \<Rightarrow> 'a list \<Rightarrow> 'a list" where
  "insert_sorted cmp x [] = [x]"
| "insert_sorted cmp x (y # ys) =
     (if cmp x y \<le> 0 then x # y # ys else y # insert_sorted cmp x ys)"

definition js_sort :: "('a \<Rightarrow> 'a \<Rightarrow> 'b::{linorder,zero}) \<Rightarrow> 'a list \<Rightarrow> 'a list" where
  "js_sort cmp xs = foldr (insert_sorted cmp) xs []"

subsection \<open>Candidate extraction (putCandidate)\<close>

text \<open>\<^verbatim>\<open>obj[k] = v\<close> on an object kept in insertion order.\<close>

fun assign :: "'k \<Rightarrow> 'v \<Rightarrow> ('k \<times> 'v) list \<Rightarrow> ('k \<times> 'v) list" where
  "assign k v [] = [(k, v)]"
| "assign k v ((k', v') # kvs) =
     (if k' = k then (k, v) # kvs else (k', v') # assign k v kvs)"

record row =
  r_bucketType :: bucketType
  r_pov :: POV
  r_renditions :: "(int \<times> candidate list) list"
  r_sourcesSet :: "string list"

type_synonym rowsByKey = "(string \<times> row) list"

record putArgs =
  a_imageType :: "string option"
  a_pov :: "POV option"
  a_rendition :: jsnum
  a_activeImage :: "string option"
  a_status :: "string option"
  a_source :: string
  a_actions :: int
  a_originalImage :: "string option"
  a_isActive :: bool

definition bucketName :: "bucketType \<Rightarrow> string" where
  "bucketName b = (case b of SlimOverview \<Rightarrow> ''SlimOverview'' | Zoomer \<Rightarrow> ''Zoomer'')"

definition createPOVKey :: "bucketType \<Rightarrow> POV \<Rightarrow> string" where
  "createPOVKey bt p =
     (let cam = orElse (normCam (simulatedCamera p)) ''na'';
          side = orElse (normSide (simulatedCameraSide p)) ''na''
      in bucketName bt @ ''_'' @ cam @ ''_'' @ side)"

definition ensureRow :: "string \<Rightarrow> bucketType \<Rightarrow> POV \<Rightarrow> rowsByKey \<Rightarrow> row \<times> rowsByKey" where
  "ensureRow key bt p rows =
     (case map_of rows key of
        Some r \<Rightarrow> (r, rows)
      | None \<Rightarrow>
          (let r = \<lparr>r_bucketType = bt, r_pov = p, r_renditions = [], r_sourcesSet = []\<rparr>
           in (r, assign key r rows)))"

definition setAdd :: "'a \<Rightarrow> 'a list \<Rightarrow> 'a list" where
  "setAdd x xs = (if x \<in> set xs then xs else xs @ [x])"

definition pushAt :: "int \<Rightarrow> candidate \<Rightarrow> (int \<times> candidate list) list \<Rightarrow> (int \<times> candidate list) list" where
  "pushAt rNum c rs =
     (case map_of rs rNum of
        None \<Rightarrow> assign rNum [c] rs
      | Some l \<Rightarrow> assign rNum (l @ [c]) rs)"

definition mkCandidate :: "putArgs \<Rightarrow> bucketType \<Rightarrow> POV \<Rightarrow> candidate" where
  "mkCandidate a bt p =
     \<lparr>c_imageType = orElse (a_imageType a) ''N/A'',
      c_bucketType = bt,
      c_status = orElse (a_status a) ''N/A'',
      c_activeImage = safeUrl (a_activeImage a),
      c_originalImage = safeUrl (a_originalImage a),
      c_image = safeUrl (a_activeImage a),
      c_source = orElse (Some (a_source a)) ''N/A'',
      c_actions = a_actions a,
      c_isActive = a_isActive a,
      c_pov = p\<rparr>"

definition putCandidate :: "putArgs \<Rightarrow> rowsByKey \<Rightarrow> rowsByKey" where
  "putCandidate a rows =
     (case a_pov a of
        None \<Rightarrow> rows
      | Some p \<Rightarrow>
          if \<not> isAllowedType (a_imageType a) then rows
          else (case bucketTypeOf (a_imageType a) of
                  None \<Rightarrow> rows
                | Some bt \<Rightarrow>
                    (let key = createPOVKey bt p;
                         (r, rows1) = ensureRow key bt p rows
                     in case a_rendition a of
                          NotFinite \<Rightarrow> rows1
                        | Finite rNum \<Rightarrow>
                            assign key
                              (r\<lparr>r_sourcesSet := setAdd (orElse (Some (a_source a)) ''N/A'') (r_sourcesSet r),
                                 r_renditions := pushAt rNum (mkCandidate a bt p) (r_renditions r)\<rparr>)
                              rows1)))"

text \<open>
  The body of the two \<^verbatim>\<open>forEach\<close> loops over \<^verbatim>\<open>uvpaintData.images\<close>
  (source \<^verbatim>\<open>images\<close>, default rendition 3) and
  \<^verbatim>\<open>uvpaintData.uvpaintHistoryImages\<close> (source \<^verbatim>\<open>uvpaintHistoryImages\<close>,
  default rendition 1); the source writes it out twice. \<open>putArgsOf\<close> is the object
  passed to \<^verbatim>\<open>putCandidate\<close>.
\<close>

definition putArgsOf :: "string \<Rightarrow> int \<Rightarrow> rawImage \<Rightarrow> putArgs" where
  "putArgsOf src dflt img =
     \<lparr>a_imageType = imageType img,
      a_pov = pov img,
      a_rendition = (case rendition img of None \<Rightarrow> Finite dflt | Some n \<Rightarrow> n),
      a_activeImage = activeImage img,
      a_status = status img,
      a_source = src,
      a_actions = (case actionsCounterMap img of None \<Rightarrow> 0
                   | Some m \<Rightarrow> sumActionMap (Some m)),
      a_originalImage = pickOriginalUrl img,
      a_isActive = isActive img\<rparr>"

definition putImage :: "string \<Rightarrow> int \<Rightarrow> rawImage \<Rightarrow> rowsByKey \<Rightarrow> rowsByKey" where
  "putImage src dflt img rows =
     (if imageType img = Some ''Artemis'' then rows
      else if pov img = None then rows
      else if \<not> isAllowedType (imageType img) then rows
      else putCandidate (putArgsOf src dflt img) rows)"

definition collectRows :: "uvpaintData \<Rightarrow> rowsByKey" where
  "collectRows d =
     foldl (\<lambda>rows img. putImage ''uvpaintHistoryImages'' 1 img rows)
       (foldl (\<lambda>rows img. putImage ''images'' 3 img rows) [] (images d))
       (uvpaintHistoryImages d)"

subsection \<open>Originals index (considerOriginal)\<close>

record originalEntry =
  o_url :: string
  o_source :: string
  o_priority :: int
  o_obj :: rawImage

type_synonym originals = "(string \<times> originalEntry) list"

definition ORIGINAL_PRIORITY :: "string \<Rightarrow> int option" where
  "ORIGINAL_PRIORITY s =
     (if s = ''images'' then Some 30 else if s = ''uvpaintHistoryImages'' then Some 10 else None)"

definition camSideKeyOf :: "POV \<Rightarrow> string option" where
  "camSideKeyOf p =
     (let cam = normCam (simulatedCamera p); side = normSide (simulatedCameraSide p)
      in if truthy cam \<and> truthy side then Some (orElse cam [] @ ''_'' @ orElse side []) else None)"

definition originalUrlOf :: "rawImage \<Rightarrow> string option" where
  "originalUrlOf img =
     (case safeUrl (originalImage img) of
        Some u \<Rightarrow> Some u
      | None \<Rightarrow> safeUrl (pickOriginalUrl img))"

definition considerOriginal :: "rawImage \<Rightarrow> string \<Rightarrow> originals \<Rightarrow> originals" where
  "considerOriginal img sourceName idx =
     (case pov img of
        None \<Rightarrow> idx
      | Some p \<Rightarrow>
          if \<not> isSlimOverview (imageType img) then idx
          else (case camSideKeyOf p of
                  None \<Rightarrow> idx
                | Some key \<Rightarrow>
                    (case originalUrlOf img of
                       None \<Rightarrow> idx
                     | Some url \<Rightarrow>
                         (let pr = (case ORIGINAL_PRIORITY sourceName of None \<Rightarrow> 0 | Some n \<Rightarrow> n);
                              entry = \<lparr>o_url = url, o_source = sourceName, o_priority = pr, o_obj = img\<rparr>
                          in case map_of idx key of
                               None \<Rightarrow> assign key entry idx
                             | Some existing \<Rightarrow>
                                 if pr > o_priority existing then assign key entry idx else idx))))"

definition collectOriginals :: "uvpaintData \<Rightarrow> originals" where
  "collectOriginals d =
     foldl (\<lambda>idx img. considerOriginal img ''uvpaintHistoryImages'' idx)
       (foldl (\<lambda>idx img. considerOriginal img ''images'' idx) [] (images d))
       (uvpaintHistoryImages d)"

subsection \<open>Comparison groups (processInspectionData)\<close>

text \<open>
  The group object, without the fields that only feed the display (\<^verbatim>\<open>name\<close>,
  \<^verbatim>\<open>vehicle\<close>, \<^verbatim>\<open>cardInfo\<close>). The three slots are Previous, Latest,
  Original, in this order. In \<open>m_actions\<close>, \<open>None\<close> is the string
  \<^verbatim>\<open>"N/A"\<close>.
\<close>

datatype renditionLabel = RNum int | OG

record renditionDatum =
  rd_imageType :: string
  rd_isActive :: bool
  rd_activeImage :: "string option"

record sortKey =
  sk_typeOrder :: int
  sk_cam :: string
  sk_side :: string

record metadata =
  m_inspectionId :: string
  m_pov :: POV
  m_bucketType :: bucketType
  m_renditions :: "renditionLabel option list"
  m_statuses :: "string list"
  m_sources :: "string list"
  m_actions :: "int option list"
  m_totalVersions :: nat
  m_povSources :: "string list"
  m_renditionData :: "renditionDatum option list"
  m_groupKey :: string
  m_camSideKey :: string
  m_published :: bool

record group =
  g_id :: string
  g_sortKey :: sortKey
  g_images :: "string option list"
  g_metadata :: metadata

definition IMAGE_TYPE_ORDER :: "bucketType \<Rightarrow> int" where
  "IMAGE_TYPE_ORDER b = (case b of SlimOverview \<Rightarrow> 0 | Zoomer \<Rightarrow> 1)"

definition isRowPublished :: "group \<Rightarrow> bool" where
  "isRowPublished g =
     list_ex (\<lambda>d. case d of None \<Rightarrow> False
                  | Some x \<Rightarrow> rd_isActive x \<and> truthy (rd_activeImage x))
       (take 2 (m_renditionData (g_metadata g)))"

definition renditionNums :: "row \<Rightarrow> int list" where
  "renditionNums r = js_sort (\<lambda>a b. b - a) (map fst (r_renditions r))"

definition pickBestAt :: "row \<Rightarrow> int \<Rightarrow> candidate option" where
  "pickBestAt r rNum =
     (let arr = (case map_of (r_renditions r) rNum of None \<Rightarrow> [] | Some l \<Rightarrow> l)
      in case js_sort (\<lambda>a b. scoreCandidate b - scoreCandidate a) arr of
           [] \<Rightarrow> None
         | c # _ \<Rightarrow> Some c)"

definition latestR :: "row \<Rightarrow> int option" where
  "latestR r = (case renditionNums r of [] \<Rightarrow> None | l # _ \<Rightarrow> Some l)"

definition prevR :: "row \<Rightarrow> int option" where
  "prevR r = (case renditionNums r of l # p # _ \<Rightarrow> Some p | _ \<Rightarrow> None)"

definition latest :: "row \<Rightarrow> candidate option" where
  "latest r = (case latestR r of None \<Rightarrow> None | Some n \<Rightarrow> pickBestAt r n)"

definition prev :: "row \<Rightarrow> candidate option" where
  "prev r = (case prevR r of None \<Rightarrow> None | Some n \<Rightarrow> pickBestAt r n)"

definition slotText :: "candidate option \<Rightarrow> (candidate \<Rightarrow> string) \<Rightarrow> string \<Rightarrow> string" where
  "slotText c f d = (case c of None \<Rightarrow> d | Some x \<Rightarrow> orElse (Some (f x)) d)"

definition renditionDatumOf :: "candidate \<Rightarrow> renditionDatum" where
  "renditionDatumOf c =
     \<lparr>rd_imageType = c_imageType c, rd_isActive = c_isActive c, rd_activeImage = c_activeImage c\<rparr>"

definition buildGroup :: "string \<Rightarrow> originals \<Rightarrow> string \<times> row \<Rightarrow> group option" where
  "buildGroup inspId originalsByCamSide kr =
     (let key = fst kr; r = snd kr in
      if length (renditionNums r) = 0 then None
      else
        (let camSideKey = camSideKeyOf (r_pov r);
             originalEntry = (case camSideKey of None \<Rightarrow> None
                              | Some k \<Rightarrow> map_of originalsByCamSide k);
             originalUrl = (case originalEntry of None \<Rightarrow> None | Some e \<Rightarrow> orNull (o_url e));
             originalFrom = (case originalEntry of None \<Rightarrow> ''N/A''
                             | Some e \<Rightarrow> orElse (Some (o_source e)) ''N/A'');
             prevDefault = (if prevR r \<noteq> None then ''N/A'' else ''Empty'');
             bt = r_bucketType r;
             g = \<lparr>g_id = inspId @ ''_'' @ key,
                  g_sortKey =
                    \<lparr>sk_typeOrder = IMAGE_TYPE_ORDER bt,
                     sk_cam = toLowerCase (orElse (normCam (simulatedCamera (r_pov r))) []),
                     sk_side = toLowerCase (orElse (normSide (simulatedCameraSide (r_pov r))) [])\<rparr>,
                  g_images =
                    [safeUrl (case prev r of None \<Rightarrow> None | Some c \<Rightarrow> c_image c),
                     safeUrl (case latest r of None \<Rightarrow> None | Some c \<Rightarrow> c_image c),
                     safeUrl originalUrl],
                  g_metadata =
                    \<lparr>m_inspectionId = inspId,
                     m_pov = r_pov r,
                     m_bucketType = bt,
                     m_renditions =
                       [map_option RNum (prevR r), map_option RNum (latestR r),
                        (if truthy originalUrl then Some OG else None)],
                     m_statuses =
                       [slotText (prev r) c_status prevDefault,
                        slotText (latest r) c_status ''N/A'',
                        (if truthy originalUrl then ''Original'' else ''Empty'')],
                     m_sources =
                       [slotText (prev r) c_source prevDefault,
                        slotText (latest r) c_source ''N/A'',
                        (if truthy originalUrl then ''SlimOverview_original:'' @ originalFrom
                         else ''Empty'')],
                     m_actions =
                       [map_option c_actions (prev r), map_option c_actions (latest r), None],
                     m_totalVersions = length (renditionNums r),
                     m_povSources = r_sourcesSet r,
                     m_renditionData =
                       [map_option renditionDatumOf (prev r),
                        map_option renditionDatumOf (latest r),
                        None],
                     m_groupKey = key,
                     m_camSideKey = (case camSideKey of None \<Rightarrow> ''N/A'' | Some k \<Rightarrow> k),
                     m_published = False\<rparr>\<rparr>
         in Some (g\<lparr>g_metadata := (g_metadata g)\<lparr>m_published := isRowPublished g\<rparr>\<rparr>)))"

text \<open>
  \<^verbatim>\<open>a.localeCompare(b)\<close>, as the order of the character codes. On the lower-case
  words the normalisers produce (\<^verbatim>\<open>front\<close>, \<^verbatim>\<open>rear\<close>, \<^verbatim>\<open>center\<close>,
  \<^verbatim>\<open>left\<close>, \<^verbatim>\<open>right\<close>) every collation agrees with it.
\<close>

definition localeCompare :: "string \<Rightarrow> string \<Rightarrow> int" where
  "localeCompare a b = (if a < b then - 1 else if b < a then 1 else 0)"

definition compareGroups :: "group \<Rightarrow> group \<Rightarrow> int" where
  "compareGroups a b =
     (let ap = (if m_published (g_metadata a) then 1 else 0);
          bp = (if m_published (g_metadata b) then 1 else 0)
      in if ap \<noteq> bp then bp - ap
         else if sk_typeOrder (g_sortKey a) \<noteq> sk_typeOrder (g_sortKey b)
           then sk_typeOrder (g_sortKey a) - sk_typeOrder (g_sortKey b)
         else if sk_cam (g_sortKey a) \<noteq> sk_cam (g_sortKey b)
           then localeCompare (sk_cam (g_sortKey a)) (sk_cam (g_sortKey b))
         else localeCompare (sk_side (g_sortKey a)) (sk_side (g_sortKey b)))"

text \<open>
  \<^verbatim>\<open>xs.forEach(x => { ...; if (skip) return; ys.push(y) })\<close>: the results that were
  pushed, in order.
\<close>

fun pushEach :: "('a \<Rightarrow> 'b option) \<Rightarrow> 'a list \<Rightarrow> 'b list" where
  "pushEach f [] = []"
| "pushEach f (x # xs) = (case f x of None \<Rightarrow> pushEach f xs | Some y \<Rightarrow> y # pushEach f xs)"

definition buildGroups :: "string \<Rightarrow> uvpaintData \<Rightarrow> group list" where
  "buildGroups inspId d =
     pushEach (buildGroup inspId (collectOriginals d)) (collectRows d)"

definition processInspectionData :: "inspection \<Rightarrow> group list" where
  "processInspectionData insp =
     (case uvpaintData insp of
        None \<Rightarrow> []
      | Some d \<Rightarrow> js_sort compareGroups (buildGroups (inspectionId insp) d))"

subsection \<open>Aggregated metrics (computeAggregatedMetrics)\<close>

text \<open>
  One entry of \<^verbatim>\<open>processedInspections\<close>. The \<^verbatim>\<open>vehicle\<close> field, the row
  labels and the trend arrows only feed the display and are left out.
\<close>

record processed =
  p_inspectionId :: string
  p_comparisons :: "group list"
  p_rawInspection :: inspection


record slotTotals =
  previousTotalActions :: int
  previousCount :: int
  latestTotalActions :: int
  latestCount :: int























subsection \<open>Alignment validator (validateMetricsAlignment)\<close>










subsection \<open>What the extraction leaves in the row table\<close>

text \<open>
  Auxiliary notions for the proofs. \<open>rows_ok\<close> is what a JavaScript object gives for
  free (a key occurs once) together with the fact that a rendition, once present, holds a
  candidate. \<open>candsAt\<close> reads \<^verbatim>\<open>rowsByKey[key]?.renditions[n] || []\<close>.
  \<open>entryOf\<close> is the group key, rendition number and candidate that one raw entry
  contributes, if it contributes any; \<open>tagged\<close> is the sequence of raw entries in the
  order the two loops visit them, each with the source name and default rendition of its
  loop.
\<close>

definition row_ok :: "row \<Rightarrow> bool" where
  "row_ok r =
     (distinct (map fst (r_renditions r)) \<and> (\<forall>nl\<in>set (r_renditions r). snd nl \<noteq> []))"

definition rows_ok :: "rowsByKey \<Rightarrow> bool" where
  "rows_ok rows = (distinct (map fst rows) \<and> (\<forall>kr\<in>set rows. row_ok (snd kr)))"

definition candsAt :: "rowsByKey \<Rightarrow> string \<Rightarrow> int \<Rightarrow> candidate list" where
  "candsAt rows key n =
     (case map_of rows key of
        None \<Rightarrow> []
      | Some r \<Rightarrow> (case map_of (r_renditions r) n of None \<Rightarrow> [] | Some l \<Rightarrow> l))"

definition entryOf :: "string \<Rightarrow> int \<Rightarrow> rawImage \<Rightarrow> (string \<times> int \<times> candidate) option" where
  "entryOf src dflt img =
     (if imageType img = Some ''Artemis'' then None
      else case pov img of
             None \<Rightarrow> None
           | Some p \<Rightarrow>
               (case bucketTypeOf (imageType img) of
                  None \<Rightarrow> None
                | Some bt \<Rightarrow>
                    (case a_rendition (putArgsOf src dflt img) of
                       NotFinite \<Rightarrow> None
                     | Finite n \<Rightarrow>
                         Some (createPOVKey bt p, n, mkCandidate (putArgsOf src dflt img) bt p))))"

definition tagged :: "uvpaintData \<Rightarrow> (string \<times> int \<times> rawImage) list" where
  "tagged d =
     map (\<lambda>img. (''images'', 3, img)) (images d)
     @ map (\<lambda>img. (''uvpaintHistoryImages'', 1, img)) (uvpaintHistoryImages d)"

text \<open>The candidates that an entry contributes to the list at key \<open>k\<close>, rendition \<open>n\<close>.\<close>

definition contrib :: "string \<Rightarrow> int \<Rightarrow> (string \<times> int \<times> candidate) option \<Rightarrow> candidate list" where
  "contrib k n e =
     (case e of None \<Rightarrow> [] | Some (k', n', c) \<Rightarrow> if k' = k \<and> n' = n then [c] else [])"

text \<open>
  The slots (Previous, then Latest) that a group fills from rendition number \<open>n\<close>.
\<close>

definition surfacedAt :: "row \<Rightarrow> int \<Rightarrow> candidate option list" where
  "surfacedAt r n =
     (if prevR r = Some n then [prev r] else []) @ (if latestR r = Some n then [latest r] else [])"



text \<open>
  The four Previous/Latest counters of a row, and all comparison groups of the loaded
  inspections in the order the loops visit them.
\<close>

definition totals :: "'a slotTotals_scheme \<Rightarrow> int \<times> int \<times> int \<times> int" where
  "totals t = (previousTotalActions t, previousCount t, latestTotalActions t, latestCount t)"

definition allComparisons :: "processed list \<Rightarrow> group list" where
  "allComparisons ps = concat (map p_comparisons ps)"

subsection \<open>The score as the specification words it\<close>

text \<open>
  The specification gives "+40 if publish-flagged", and defines publish-flagged as
  \<^verbatim>\<open>isActive && activeImage present\<close>. This second definition follows those words, for
  comparison with \<open>scoreCandidate\<close>.
\<close>

definition spec_scoreCandidate :: "candidate \<Rightarrow> int" where
  "spec_scoreCandidate c =
     (if truthy (c_activeImage c) then 100 else 0)
     + (if c_isActive c \<and> truthy (c_activeImage c) then 40 else 0)
     + (if c_source c = ''images'' then 30
        else if c_source c = ''uvpaintHistoryImages'' then 10 else 0)"

subsection \<open>Concrete inputs\<close>

definition ex_pov :: "string \<Rightarrow> string \<Rightarrow> int option \<Rightarrow> POV" where
  "ex_pov c s n =
     \<lparr>simulatedCamera = Some c, simulatedCameraSide = Some s, serialNumber = n,
      originalCameraId = None\<rparr>"

definition ex_image ::
  "string \<Rightarrow> POV option \<Rightarrow> jsnum option \<Rightarrow> string option \<Rightarrow> bool \<Rightarrow> int \<Rightarrow> rawImage" where
  "ex_image t p r a act n =
     \<lparr>imageType = Some t, pov = p, rendition = r, activeImage = a, originalImage = None,
      originalImageUrl = None, originalImageWithBackground = None,
      originalImageWithoutBackground = None, status = None, isActive = act,
      actionsCounterMap = Some [(''a'', Count n)]\<rparr>"

definition ex_candidate :: "string \<Rightarrow> bool \<Rightarrow> string option \<Rightarrow> candidate" where
  "ex_candidate src act url =
     \<lparr>c_imageType = ''SlimOverview'', c_bucketType = SlimOverview, c_status = ''N/A'',
      c_activeImage = url, c_originalImage = None, c_image = url, c_source = src,
      c_actions = 0, c_isActive = act, c_pov = ex_pov ''Front'' ''Left'' None\<rparr>"

text \<open>Three candidates colliding at rendition 3; the second and the third tie.\<close>

definition ex_arr :: "candidate list" where
  "ex_arr =
     [ex_candidate ''uvpaintHistoryImages'' False (Some ''u0''),
      ex_candidate ''images'' True (Some ''u1''),
      ex_candidate ''images'' True (Some ''u2'')]"

definition ex_row :: row where
  "ex_row =
     \<lparr>r_bucketType = SlimOverview, r_pov = ex_pov ''Front'' ''Left'' None,
      r_renditions = [(3, ex_arr)], r_sourcesSet = [''images'', ''uvpaintHistoryImages'']\<rparr>"

text \<open>
  An entry of \<^verbatim>\<open>images\<close> that is neither active nor has an image, and an entry of
  \<^verbatim>\<open>uvpaintHistoryImages\<close> at the same viewpoint and rendition that is active without
  an image.
\<close>

definition ex_collision :: uvpaintData where
  "ex_collision =
     \<lparr>images =
        [ex_image ''SlimOverview'' (Some (ex_pov ''Front'' ''Left'' (Some 1))) None None False 0],
      uvpaintHistoryImages =
        [ex_image ''SlimOverview'' (Some (ex_pov ''Front'' ''Left'' (Some 2)))
           (Some (Finite 3)) None True 0]\<rparr>"

text \<open>
  One viewpoint with the renditions 1, 3 and 5, and a history entry whose rendition is not
  a finite number.
\<close>

definition ex135_data :: uvpaintData where
  "ex135_data =
     \<lparr>images =
        [ex_image ''SlimOverview'' (Some (ex_pov ''Front'' ''Left'' None)) (Some (Finite 1))
           (Some ''u0'') False 0,
         ex_image ''SlimOverview'' (Some (ex_pov ''Front'' ''Left'' None)) (Some (Finite 3))
           (Some ''u1'') False 0,
         ex_image ''SlimOverview'' (Some (ex_pov ''Front'' ''Left'' None)) (Some (Finite 5))
           (Some ''u2'') False 0],
      uvpaintHistoryImages =
        [ex_image ''Zoomer'' (Some (ex_pov ''Rear'' ''Right'' None)) (Some NotFinite)
           (Some ''u0'') False 0]\<rparr>"

definition ex135 :: inspection where
  "ex135 = \<lparr>inspectionId = ''i1'', uvpaintData = Some ex135_data\<rparr>"

text \<open>A single entry, whose rendition defaults to 3.\<close>

definition ex_single_data :: uvpaintData where
  "ex_single_data =
     \<lparr>images =
        [ex_image ''Zoomer'' (Some (ex_pov ''Rear'' ''Right'' None)) None (Some ''u1'') True 4],
      uvpaintHistoryImages = []\<rparr>"

definition ex_single :: inspection where
  "ex_single = \<lparr>inspectionId = ''i1'', uvpaintData = Some ex_single_data\<rparr>"



text \<open>
  Two entries that differ in the serial number only, one in each collection, both with the
  explicit rendition 3; and a group where such a pair sits at rendition 1 below the
  renditions 2 and 3.
\<close>

definition ex_serial_e1 :: rawImage where
  "ex_serial_e1 =
     ex_image ''SlimOverview'' (Some (ex_pov ''Front'' ''Left'' (Some 1))) (Some (Finite 3))
       (Some ''u1'') True 0"

definition ex_serial_e2 :: rawImage where
  "ex_serial_e2 =
     ex_serial_e1\<lparr>pov := Some ((ex_pov ''Front'' ''Left'' (Some 1))\<lparr>serialNumber := Some 2\<rparr>)\<rparr>"

definition ex_serial_data :: uvpaintData where
  "ex_serial_data = \<lparr>images = [ex_serial_e1], uvpaintHistoryImages = [ex_serial_e2]\<rparr>"

definition ex_serial3_data :: uvpaintData where
  "ex_serial3_data =
     \<lparr>images =
        [ex_image ''SlimOverview'' (Some (ex_pov ''Front'' ''Left'' (Some 1))) (Some (Finite 1))
           (Some ''u0'') False 0,
         ex_image ''SlimOverview'' (Some (ex_pov ''Front'' ''Left'' (Some 2))) (Some (Finite 1))
           (Some ''u0'') False 0,
         ex_image ''SlimOverview'' (Some (ex_pov ''Front'' ''Left'' None)) (Some (Finite 2))
           (Some ''u1'') False 0,
         ex_image ''SlimOverview'' (Some (ex_pov ''Front'' ''Left'' None)) (Some (Finite 3))
           (Some ''u2'') False 0],
      uvpaintHistoryImages = []\<rparr>"





text \<open>
  An image entry with action count -1 over a history entry with action count 0; and an
  image entry with 5 actions over a history entry with 10.
\<close>

definition ex_negative :: inspection where
  "ex_negative =
     \<lparr>inspectionId = ''i1'',
      uvpaintData = Some
        \<lparr>images =
           [ex_image ''SlimOverview'' (Some (ex_pov ''Front'' ''Left'' None)) None (Some ''u1'')
              False (- 1)],
         uvpaintHistoryImages =
           [ex_image ''SlimOverview'' (Some (ex_pov ''Front'' ''Left'' None)) None (Some ''u0'')
              False 0]\<rparr>\<rparr>"




section \<open>Properties\<close>

subsection \<open>Normalisation never fails\<close>





subsection \<open>Evaluation of the concrete inputs\<close>

lemmas string_defs = trim_def isSpace_def toLowerCase_def toLowerChar_def norm_js_def

lemma ex_norm:
  "norm_js (Some ''SlimOverview'') = ''slimoverview''"
  "norm_js (Some ''Zoomer'') = ''zoomer''"
  "norm_js (Some ''ZoomerFront'') = ''zoomerfront''"
  "norm_js (Some ''Front'') = ''front''"
  "norm_js (Some ''Rear'') = ''rear''"
  "norm_js (Some ''Left'') = ''left''"
  "norm_js (Some ''Right'') = ''right''"
  "norm_js None = []"
  by (simp_all add: string_defs)

lemma ex_trim:
  "trim ''u0'' = ''u0''" "trim ''u1'' = ''u1''" "trim ''u2'' = ''u2''" "trim ''o1'' = ''o1''"
  "trim ''o2'' = ''o2''"
  by (simp_all add: trim_def isSpace_def)

lemmas helper_defs = orElse_def orNull_def truthy_def
  normCam_def normSide_def isSlimOverview_def isZoomer_def isAllowedType_def
  bucketTypeOf_def safeUrl_def sumActionMap_def numberOr0_def pickOriginalUrl_def

lemmas extract_defs = collectRows_def putImage_def putArgsOf_def putCandidate_def createPOVKey_def
  bucketName_def ensureRow_def setAdd_def pushAt_def mkCandidate_def

lemmas original_defs = collectOriginals_def considerOriginal_def camSideKeyOf_def
  originalUrlOf_def ORIGINAL_PRIORITY_def

lemmas group_defs = processInspectionData_def buildGroups_def buildGroup_def
  renditionNums_def js_sort_def latest_def prev_def latestR_def prevR_def
  pickBestAt_def scoreCandidate_def srcPriority_def isRowPublished_def IMAGE_TYPE_ORDER_def
  slotText_def renditionDatumOf_def compareGroups_def localeCompare_def

lemmas ex_defs = ex_pov_def ex_image_def ex_candidate_def

subsection \<open>The comparator sort\<close>

lemma set_insert_sorted: "set (insert_sorted cmp x ys) = insert x (set ys)"
  by (induction ys) auto

lemma js_sort_Nil: "js_sort cmp [] = []"
  by (simp add: js_sort_def)

lemma js_sort_Cons: "js_sort cmp (x # xs) = insert_sorted cmp x (js_sort cmp xs)"
  by (simp add: js_sort_def)

lemma set_js_sort: "set (js_sort cmp xs) = set xs"
  by (induction xs) (simp_all add: js_sort_Nil js_sort_Cons set_insert_sorted)

lemma length_insert_sorted: "length (insert_sorted cmp x ys) = Suc (length ys)"
  by (induction ys) auto

lemma length_js_sort: "length (js_sort cmp xs) = length xs"
  by (induction xs) (simp_all add: js_sort_Cons js_sort_Nil length_insert_sorted)

lemma js_sort_eq_Nil: "js_sort cmp xs = [] \<longleftrightarrow> xs = []"
  using length_js_sort [of cmp xs] by (metis length_0_conv)

lemma distinct_insert_sorted:
  "distinct (insert_sorted cmp x ys) \<longleftrightarrow> x \<notin> set ys \<and> distinct ys"
  by (induction ys) (auto simp: set_insert_sorted)

lemma distinct_js_sort: "distinct (js_sort cmp xs) \<longleftrightarrow> distinct xs"
  by (induction xs)
    (simp_all add: js_sort_Cons js_sort_Nil distinct_insert_sorted set_js_sort)

lemma hd_insert_sorted:
  "hd (insert_sorted cmp x ys) =
     (if ys = [] then x else if cmp x (hd ys) \<le> 0 then x else hd ys)"
  by (cases ys) simp_all

lemma sorted_insert_sorted:
  assumes total: "\<And>a b. cmp a b \<le> 0 \<or> cmp b a \<le> 0"
    and trans: "\<And>a b c. cmp a b \<le> 0 \<Longrightarrow> cmp b c \<le> 0 \<Longrightarrow> cmp a c \<le> 0"
    and "sorted_wrt (\<lambda>a b. cmp a b \<le> 0) ys"
  shows "sorted_wrt (\<lambda>a b. cmp a b \<le> 0) (insert_sorted cmp x ys)"
  using assms(3)
proof (induction ys)
  case Nil
  then show ?case by simp
next
  case (Cons y ys)
  show ?case
  proof (cases "cmp x y \<le> 0")
    case True
    with Cons.prems show ?thesis using trans by auto
  next
    case False
    then have "cmp y x \<le> 0" using total by blast
    with False Cons show ?thesis by (auto simp: set_insert_sorted)
  qed
qed

lemma sorted_js_sort:
  assumes total: "\<And>a b. cmp a b \<le> 0 \<or> cmp b a \<le> 0"
    and trans: "\<And>a b c. cmp a b \<le> 0 \<Longrightarrow> cmp b c \<le> 0 \<Longrightarrow> cmp a c \<le> 0"
  shows "sorted_wrt (\<lambda>a b. cmp a b \<le> 0) (js_sort cmp xs)"
proof (induction xs)
  case Nil
  show ?case by (simp add: js_sort_Nil)
next
  case (Cons x xs)
  show ?case
    unfolding js_sort_Cons
    by (rule sorted_insert_sorted [OF total trans Cons.IH])
qed

text \<open>
  Sorting by descending score puts first the earliest element of highest score.
\<close>

lemma hd_js_sort_first_max:
  fixes f :: "'a \<Rightarrow> int"
  assumes "arr \<noteq> []"
  shows "\<exists>i<length arr. hd (js_sort (\<lambda>a b. f b - f a) arr) = arr ! i
           \<and> (\<forall>j<length arr. f (arr ! j) \<le> f (arr ! i))
           \<and> (\<forall>j<i. f (arr ! j) < f (arr ! i))"
  using assms
proof (induction arr)
  case Nil
  then show ?case by simp
next
  case (Cons x xs)
  let ?cmp = "\<lambda>a b. f b - f a"
  show ?case
  proof (cases "xs = []")
    case True
    then show ?thesis by (simp add: js_sort_Cons js_sort_Nil)
  next
    case False
    from Cons.IH [OF False] obtain i where i: "i < length xs"
      and h: "hd (js_sort ?cmp xs) = xs ! i"
      and mx: "\<forall>j<length xs. f (xs ! j) \<le> f (xs ! i)"
      and fst: "\<forall>j<i. f (xs ! j) < f (xs ! i)" by blast
    have ne: "js_sort ?cmp xs \<noteq> []" using False by (simp add: js_sort_eq_Nil)
    show ?thesis
    proof (cases "f (xs ! i) \<le> f x")
      case True
      then have "hd (js_sort ?cmp (x # xs)) = x"
        using ne h by (simp add: js_sort_Cons hd_insert_sorted)
      moreover have "\<forall>j<length (x # xs). f ((x # xs) ! j) \<le> f x"
      proof (intro allI impI)
        fix j assume "j < length (x # xs)"
        then show "f ((x # xs) ! j) \<le> f x"
          using mx True by (cases j) (auto intro: order_trans)
      qed
      ultimately have "hd (js_sort ?cmp (x # xs)) = (x # xs) ! 0
           \<and> (\<forall>j<length (x # xs). f ((x # xs) ! j) \<le> f ((x # xs) ! 0))
           \<and> (\<forall>j<0. f ((x # xs) ! j) < f ((x # xs) ! 0))" by simp
      then show ?thesis by (intro exI [of _ 0]) simp
    next
      case False
      then have lt: "f x < f (xs ! i)" by simp
      then have "hd (js_sort ?cmp (x # xs)) = xs ! i"
        using ne h by (simp add: js_sort_Cons hd_insert_sorted)
      moreover have "\<forall>j<length (x # xs). f ((x # xs) ! j) \<le> f (xs ! i)"
      proof (intro allI impI)
        fix j assume "j < length (x # xs)"
        then show "f ((x # xs) ! j) \<le> f (xs ! i)"
          using mx lt by (cases j) auto
      qed
      moreover have "\<forall>j<Suc i. f ((x # xs) ! j) < f (xs ! i)"
      proof (intro allI impI)
        fix j assume "j < Suc i"
        then show "f ((x # xs) ! j) < f (xs ! i)"
          using fst lt by (cases j) auto
      qed
      ultimately have "Suc i < length (x # xs)
           \<and> hd (js_sort ?cmp (x # xs)) = (x # xs) ! Suc i
           \<and> (\<forall>j<length (x # xs). f ((x # xs) ! j) \<le> f ((x # xs) ! Suc i))
           \<and> (\<forall>j<Suc i. f ((x # xs) ! j) < f ((x # xs) ! Suc i))"
        using i by simp
      then show ?thesis by blast
    qed
  qed
qed

subsection \<open>Choice among colliding candidates\<close>

text \<open>
  C1 (as the code has it). For a group and a rendition number that holds candidates,
  \<^verbatim>\<open>pickBestAt\<close> returns exactly one of them: one of highest score, and among those of
  highest score the earliest in the order the candidates were pushed. The score is 100 for
  a non-empty active-image URL, plus 40 when \<^verbatim>\<open>isActive\<close> is set (whether or not an
  image is present), plus 30 for the source \<^verbatim>\<open>images\<close>, 10 for
  \<^verbatim>\<open>uvpaintHistoryImages\<close>, 0 for any other source.
\<close>

theorem pickBestAt_first_highest_score:
  assumes "map_of (r_renditions r) rNum = Some arr" and "arr \<noteq> []"
  shows "(\<exists>i<length arr. pickBestAt r rNum = Some (arr ! i)
            \<and> (\<forall>j<length arr. scoreCandidate (arr ! j) \<le> scoreCandidate (arr ! i))
            \<and> (\<forall>j<i. scoreCandidate (arr ! j) < scoreCandidate (arr ! i)))
         \<and> (\<forall>c. scoreCandidate c =
               (if truthy (c_activeImage c) then 100 else 0)
               + (if c_isActive c then 40 else 0)
               + (if c_source c = ''images'' then 30
                  else if c_source c = ''uvpaintHistoryImages'' then 10 else 0))"
proof -
  let ?s = "js_sort (\<lambda>a b. scoreCandidate b - scoreCandidate a) arr"
  have ne: "?s \<noteq> []" using assms(2) by (simp add: js_sort_eq_Nil)
  then have pick: "pickBestAt r rNum = Some (hd ?s)"
    using assms(1) by (cases ?s) (simp_all add: pickBestAt_def)
  have score: "scoreCandidate c =
               (if truthy (c_activeImage c) then 100 else 0)
               + (if c_isActive c then 40 else 0)
               + (if c_source c = ''images'' then 30
                  else if c_source c = ''uvpaintHistoryImages'' then 10 else 0)" for c
    by (simp add: scoreCandidate_def srcPriority_def orElse_def Let_def)
  from hd_js_sort_first_max [OF assms(2), of scoreCandidate] pick score
  show ?thesis by simp
qed

text \<open>
  At rendition 3 of \<open>ex_row\<close> the scores are 110, 170, 170: the second candidate is
  chosen, ahead of the third that ties with it.
\<close>

theorem pickBestAt_first_highest_score_witness:
  "map_of (r_renditions ex_row) 3 = Some ex_arr
   \<and> ex_arr \<noteq> []
   \<and> ((\<exists>i<length ex_arr. pickBestAt ex_row 3 = Some (ex_arr ! i)
            \<and> (\<forall>j<length ex_arr. scoreCandidate (ex_arr ! j) \<le> scoreCandidate (ex_arr ! i))
            \<and> (\<forall>j<i. scoreCandidate (ex_arr ! j) < scoreCandidate (ex_arr ! i)))
         \<and> (\<forall>c. scoreCandidate c =
               (if truthy (c_activeImage c) then 100 else 0)
               + (if c_isActive c then 40 else 0)
               + (if c_source c = ''images'' then 30
                  else if c_source c = ''uvpaintHistoryImages'' then 10 else 0)))
   \<and> pickBestAt ex_row 3 = Some (ex_arr ! 1)
   \<and> map scoreCandidate ex_arr = [110, 170, 170]"
proof -
  have h1: "map_of (r_renditions ex_row) 3 = Some ex_arr" by (simp add: ex_row_def)
  have h2: "ex_arr \<noteq> []" by (simp add: ex_arr_def)
  note c = pickBestAt_first_highest_score [OF h1 h2]
  have e1: "pickBestAt ex_row 3 = Some (ex_arr ! 1)"
    by (simp add: ex_row_def ex_arr_def ex_defs pickBestAt_def js_sort_def scoreCandidate_def
        srcPriority_def orElse_def truthy_def)
  have e2: "map scoreCandidate ex_arr = [110, 170, 170]"
    by (simp add: ex_arr_def ex_defs scoreCandidate_def srcPriority_def orElse_def truthy_def)
  show ?thesis by (intro conjI h1 h2 e1 e2 conjunct1 [OF c] conjunct2 [OF c])
qed

text \<open>
  The claim as written scores +40 only for a publish-flagged candidate. On
  \<open>ex_collision\<close> both entries land at rendition 3 of the same group; the history
  entry, active but without an image, is chosen (code scores 50 against 30), while the
  score of the specification ranks it below the other one (10 against 30).
\<close>

theorem pickBestAt_not_spec_score:
  "(\<exists>r cB cA. collectRows ex_collision = [(''SlimOverview_front_left'', r)]
       \<and> r_renditions r = [(3, [cB, cA])]
       \<and> c_source cB = ''images'' \<and> c_source cA = ''uvpaintHistoryImages''
       \<and> latest r = Some cA
       \<and> spec_scoreCandidate cA < spec_scoreCandidate cB)
   \<and> map (\<lambda>g. m_sources (g_metadata g))
        (processInspectionData \<lparr>inspectionId = ''i1'', uvpaintData = Some ex_collision\<rparr>)
      = [[''Empty'', ''uvpaintHistoryImages'', ''Empty'']]"
  by (simp add: ex_collision_def ex_defs ex_norm ex_trim helper_defs extract_defs original_defs
      group_defs spec_scoreCandidate_def Let_def)

subsection \<open>Assignment to an object kept in insertion order\<close>

lemma map_of_assign: "map_of (assign k v kvs) = (map_of kvs)(k \<mapsto> v)"
  by (induction kvs) (auto simp: fun_eq_iff)

lemma fst_set_assign: "fst ` set (assign k v kvs) = insert k (fst ` set kvs)"
  by (simp add: dom_map_of_conv_image_fst [symmetric] map_of_assign)

lemma map_fst_assign:
  "map fst (assign k v kvs) = (if k \<in> fst ` set kvs then map fst kvs else map fst kvs @ [k])"
proof (induction kvs)
  case Nil
  show ?case by simp
next
  case (Cons p kvs)
  obtain k' v' where p: "p = (k', v')" by (cases p)
  show ?case using Cons.IH by (simp add: p)
qed

lemma set_assign_subset: "set (assign k v kvs) \<subseteq> insert (k, v) (set kvs)"
  by (induction kvs) (auto split: if_splits)

lemma distinct_assign: "distinct (map fst kvs) \<Longrightarrow> distinct (map fst (assign k v kvs))"
  by (simp add: map_fst_assign)

lemma assign_not_Nil: "assign k v kvs \<noteq> []"
  by (cases kvs) (auto split: if_splits)

lemma rows_ok_assign:
  assumes "rows_ok rows" and "row_ok r"
  shows "rows_ok (assign k r rows)"
proof -
  have "row_ok (snd kr)" if "kr \<in> set (assign k r rows)" for kr
  proof -
    from that set_assign_subset [of k r rows] have "kr = (k, r) \<or> kr \<in> set rows" by blast
    then show ?thesis
    proof
      assume "kr = (k, r)"
      then show ?thesis using assms(2) by simp
    next
      assume "kr \<in> set rows"
      then show ?thesis using assms(1) unfolding rows_ok_def by blast
    qed
  qed
  moreover have "distinct (map fst (assign k r rows))"
    using assms(1) unfolding rows_ok_def by (intro distinct_assign) blast
  ultimately show ?thesis unfolding rows_ok_def by blast
qed

lemma row_ok_lookup:
  assumes "rows_ok rows" and "map_of rows k = Some r"
  shows "row_ok r"
proof -
  from map_of_SomeD [OF assms(2)] have "(k, r) \<in> set rows" .
  then have "row_ok (snd (k, r))" using assms(1) unfolding rows_ok_def by blast
  then show ?thesis by simp
qed

lemma pushAt_set:
  "\<exists>l. set (pushAt n c rs) \<subseteq> insert (n, l @ [c]) (set rs)"
proof (cases "map_of rs n")
  case None
  then have "set (pushAt n c rs) \<subseteq> insert (n, [] @ [c]) (set rs)"
    using set_assign_subset [of n "[c]" rs] by (simp add: pushAt_def)
  then show ?thesis by blast
next
  case (Some l)
  then have "set (pushAt n c rs) \<subseteq> insert (n, l @ [c]) (set rs)"
    using set_assign_subset [of n "l @ [c]" rs] by (simp add: pushAt_def)
  then show ?thesis by blast
qed

lemma distinct_pushAt: "distinct (map fst rs) \<Longrightarrow> distinct (map fst (pushAt n c rs))"
  by (cases "map_of rs n") (simp_all add: pushAt_def distinct_assign)

lemma row_ok_pushAt:
  assumes "row_ok r"
  shows "row_ok (r\<lparr>r_sourcesSet := s, r_renditions := pushAt n c (r_renditions r)\<rparr>)"
proof -
  let ?rs = "r_renditions r"
  have d: "distinct (map fst (pushAt n c ?rs))"
    using assms unfolding row_ok_def by (intro distinct_pushAt) blast
  obtain l where sub: "set (pushAt n c ?rs) \<subseteq> insert (n, l @ [c]) (set ?rs)"
    using pushAt_set [of n c ?rs] by blast
  have "snd nl \<noteq> []" if "nl \<in> set (pushAt n c ?rs)" for nl
  proof -
    from that sub have "nl = (n, l @ [c]) \<or> nl \<in> set ?rs" by blast
    then show ?thesis
    proof
      assume "nl = (n, l @ [c])"
      then show ?thesis by simp
    next
      assume "nl \<in> set ?rs"
      then show ?thesis using assms unfolding row_ok_def by blast
    qed
  qed
  with d show ?thesis unfolding row_ok_def by simp
qed

subsection \<open>Invariants of candidate extraction\<close>

lemma rows_ok_ensureRow:
  assumes "rows_ok rows" and "ensureRow key bt p rows = (r, rows1)"
  shows "rows_ok rows1 \<and> row_ok r"
proof (cases "map_of rows key")
  case None
  then have "rows1 = assign key r rows" and "r_renditions r = []"
    using assms(2) by (auto simp: ensureRow_def Let_def)
  then show ?thesis using assms(1) by (simp add: rows_ok_assign row_ok_def)
next
  case (Some r')
  then show ?thesis using assms row_ok_lookup [OF assms(1) Some] by (simp add: ensureRow_def)
qed

lemma rows_ok_putCandidate:
  assumes "rows_ok rows"
  shows "rows_ok (putCandidate a rows)"
proof (cases "a_pov a")
  case None
  then show ?thesis using assms by (simp add: putCandidate_def)
next
  case (Some p)
  show ?thesis
  proof (cases "bucketTypeOf (a_imageType a)")
    case None
    then show ?thesis using assms Some by (simp add: putCandidate_def)
  next
    case bt: (Some bt)
    obtain r rows1 where e: "ensureRow (createPOVKey bt p) bt p rows = (r, rows1)"
      by (cases "ensureRow (createPOVKey bt p) bt p rows")
    from rows_ok_ensureRow [OF assms e] have ok1: "rows_ok rows1" and okr: "row_ok r" by simp_all
    show ?thesis
    proof (cases "a_rendition a")
      case NotFinite
      then show ?thesis using assms Some bt e ok1 by (simp add: putCandidate_def)
    next
      case (Finite n)
      then show ?thesis
        using assms Some bt e rows_ok_assign [OF ok1 row_ok_pushAt [OF okr]]
        by (simp add: putCandidate_def)
    qed
  qed
qed

lemma rows_ok_putImage: "rows_ok rows \<Longrightarrow> rows_ok (putImage src dflt img rows)"
  by (simp add: putImage_def rows_ok_putCandidate)

lemma foldl_invariant:
  assumes "P s" and "\<And>s x. P s \<Longrightarrow> P (f s x)"
  shows "P (foldl f s xs)"
  using assms(1) by (induction xs arbitrary: s) (simp_all add: assms(2))

lemma rows_ok_collectRows: "rows_ok (collectRows d)"
proof -
  have "rows_ok []" by (simp add: rows_ok_def)
  then have "rows_ok (foldl (\<lambda>rows img. putImage ''images'' 3 img rows) [] (images d))"
    by (rule foldl_invariant [where P = rows_ok]) (rule rows_ok_putImage)
  then show ?thesis
    unfolding collectRows_def
    by (rule foldl_invariant [where P = rows_ok]) (rule rows_ok_putImage)
qed

subsection \<open>The candidate lists, in input order\<close>

lemma map_of_pushAt:
  "map_of (pushAt n c rs) = (map_of rs)(n \<mapsto> (case map_of rs n of None \<Rightarrow> [] | Some l \<Rightarrow> l) @ [c])"
  by (cases "map_of rs n") (simp_all add: pushAt_def map_of_assign)

lemma ensureRow_lookup:
  assumes "ensureRow key bt p rows = (r, rows1)"
  shows "map_of rows1 = (map_of rows)(key \<mapsto> r)"
    and "(case map_of (r_renditions r) n of None \<Rightarrow> [] | Some l \<Rightarrow> l) = candsAt rows key n"
proof -
  show "map_of rows1 = (map_of rows)(key \<mapsto> r)"
  proof (cases "map_of rows key")
    case None
    then show ?thesis using assms by (auto simp: ensureRow_def Let_def map_of_assign)
  next
    case (Some r')
    then show ?thesis using assms by (auto simp: ensureRow_def fun_eq_iff)
  qed
  show "(case map_of (r_renditions r) n of None \<Rightarrow> [] | Some l \<Rightarrow> l) = candsAt rows key n"
  proof (cases "map_of rows key")
    case None
    then show ?thesis using assms by (auto simp: ensureRow_def Let_def candsAt_def)
  next
    case (Some r')
    then show ?thesis using assms by (auto simp: ensureRow_def candsAt_def)
  qed
qed

lemma candsAt_ensureRow:
  assumes "ensureRow key bt p rows = (r, rows1)"
  shows "candsAt rows1 k n = candsAt rows k n"
proof (cases "k = key")
  case True
  have "candsAt rows1 key n = (case map_of (r_renditions r) n of None \<Rightarrow> [] | Some l \<Rightarrow> l)"
    by (simp add: candsAt_def ensureRow_lookup(1) [OF assms])
  then show ?thesis using True ensureRow_lookup(2) [OF assms] by simp
next
  case False
  then show ?thesis by (simp add: candsAt_def ensureRow_lookup(1) [OF assms])
qed

lemma candsAt_putCandidate:
  "candsAt (putCandidate a rows) k n =
     candsAt rows k n @
       contrib k n
         (case a_pov a of
            None \<Rightarrow> None
          | Some p \<Rightarrow>
              (case bucketTypeOf (a_imageType a) of
                 None \<Rightarrow> None
               | Some bt \<Rightarrow>
                   (case a_rendition a of
                      NotFinite \<Rightarrow> None
                    | Finite m \<Rightarrow> Some (createPOVKey bt p, m, mkCandidate a bt p))))"
proof (cases "a_pov a")
  case None
  then show ?thesis by (simp add: putCandidate_def contrib_def)
next
  case (Some p)
  show ?thesis
  proof (cases "bucketTypeOf (a_imageType a)")
    case None
    then show ?thesis using Some by (simp add: putCandidate_def contrib_def)
  next
    case bt: (Some bt)
    then have allowed: "isAllowedType (a_imageType a)"
      by (auto simp: bucketTypeOf_def isAllowedType_def split: if_splits)
    let ?key = "createPOVKey bt p"
    obtain r rows1 where e: "ensureRow ?key bt p rows = (r, rows1)"
      by (cases "ensureRow ?key bt p rows")
    show ?thesis
    proof (cases "a_rendition a")
      case NotFinite
      then have "putCandidate a rows = rows1"
        using Some bt allowed e by (simp add: putCandidate_def)
      then show ?thesis
        using NotFinite Some bt candsAt_ensureRow [OF e] by (simp add: contrib_def)
    next
      case (Finite m)
      let ?c = "mkCandidate a bt p"
      let ?r' = "r\<lparr>r_sourcesSet := setAdd (orElse (Some (a_source a)) ''N/A'') (r_sourcesSet r),
                    r_renditions := pushAt m ?c (r_renditions r)\<rparr>"
      have pc: "putCandidate a rows = assign ?key ?r' rows1"
        using Some bt allowed e Finite by (simp add: putCandidate_def)
      show ?thesis
      proof (cases "k = ?key")
        case True
        have "candsAt (assign ?key ?r' rows1) ?key n =
              (case map_of (pushAt m ?c (r_renditions r)) n of None \<Rightarrow> [] | Some l \<Rightarrow> l)"
          by (simp add: candsAt_def map_of_assign)
        also have "\<dots> = candsAt rows ?key n @ (if m = n then [?c] else [])"
          using ensureRow_lookup(2) [OF e, of m] ensureRow_lookup(2) [OF e, of n]
          by (simp add: map_of_pushAt)
        finally show ?thesis using True pc Some bt Finite by (simp add: contrib_def)
      next
        case False
        then have "candsAt (assign ?key ?r' rows1) k n = candsAt rows1 k n"
          by (simp add: candsAt_def map_of_assign)
        then show ?thesis
          using False pc Some bt Finite candsAt_ensureRow [OF e] by (simp add: contrib_def)
      qed
    qed
  qed
qed

lemma candsAt_putImage:
  "candsAt (putImage src dflt img rows) k n = candsAt rows k n @ contrib k n (entryOf src dflt img)"
proof -
  have a: "a_pov (putArgsOf src dflt img) = pov img"
    "a_imageType (putArgsOf src dflt img) = imageType img"
    by (simp_all add: putArgsOf_def)
  have nb: "\<not> isAllowedType (imageType img) \<Longrightarrow> bucketTypeOf (imageType img) = None"
    by (simp add: bucketTypeOf_def isAllowedType_def)
  show ?thesis
  proof (cases "imageType img = Some ''Artemis''")
    case True
    then show ?thesis by (simp add: putImage_def entryOf_def contrib_def)
  next
    case notArtemis: False
    show ?thesis
    proof (cases "pov img")
      case None
      then show ?thesis using notArtemis by (simp add: putImage_def entryOf_def contrib_def)
    next
      case (Some p)
      show ?thesis
      proof (cases "isAllowedType (imageType img)")
        case False
        then show ?thesis
          using notArtemis Some nb by (simp add: putImage_def entryOf_def contrib_def)
      next
        case True
        then have "putImage src dflt img rows = putCandidate (putArgsOf src dflt img) rows"
          using notArtemis Some by (simp add: putImage_def)
        then show ?thesis
          using notArtemis Some by (simp add: candsAt_putCandidate a entryOf_def)
      qed
    qed
  qed
qed

lemma candsAt_foldl:
  "candsAt (foldl (\<lambda>rows img. putImage src dflt img rows) rows imgs) k n =
     candsAt rows k n @ concat (map (\<lambda>img. contrib k n (entryOf src dflt img)) imgs)"
  by (induction imgs arbitrary: rows) (simp_all add: candsAt_putImage)

lemma candsAt_collectRows:
  "candsAt (collectRows d) k n =
     concat (map (\<lambda>(src, dflt, img). contrib k n (entryOf src dflt img)) (tagged d))"
proof -
  have "candsAt [] k n = []" by (simp add: candsAt_def)
  then show ?thesis
    unfolding collectRows_def candsAt_foldl tagged_def by (simp add: comp_def)
qed

subsection \<open>Rendition numbers of a group\<close>

lemma sorted_desc_strict:
  fixes xs :: "int list"
  assumes "sorted_wrt (\<lambda>a b. b - a \<le> 0) xs" and "distinct xs"
  shows "sorted_wrt (\<lambda>a b. b < a) xs"
  using assms by (induction xs) (auto simp: less_le)

lemma renditionNums_sorted:
  assumes "row_ok r"
  shows "sorted_wrt (\<lambda>a b. b < a) (renditionNums r)"
    and "set (renditionNums r) = fst ` set (r_renditions r)"
    and "length (renditionNums r) = length (r_renditions r)"
proof -
  have s: "sorted_wrt (\<lambda>a b. b - a \<le> 0) (renditionNums r)"
    unfolding renditionNums_def by (rule sorted_js_sort) auto
  have d: "distinct (renditionNums r)"
    using assms by (simp add: renditionNums_def distinct_js_sort row_ok_def)
  show "sorted_wrt (\<lambda>a b. b < a) (renditionNums r)"
    by (rule sorted_desc_strict [OF s d])
  show "set (renditionNums r) = fst ` set (r_renditions r)"
    by (simp add: renditionNums_def set_js_sort)
  show "length (renditionNums r) = length (r_renditions r)"
    by (simp add: renditionNums_def length_js_sort)
qed

lemma Max_sorted_desc:
  fixes x :: int
  assumes "sorted_wrt (\<lambda>a b. b < a) (x # xs)"
  shows "Max (set (x # xs)) = x" and "set (x # xs) - {x} = set xs"
proof -
  have lt: "\<forall>y\<in>set xs. y < x" using assms by simp
  show "Max (set (x # xs)) = x"
    by (rule Max_eqI) (use lt in \<open>auto simp: less_imp_le\<close>)
  show "set (x # xs) - {x} = set xs" using lt by auto
qed

lemma latestR_prevR_Max:
  assumes "row_ok r"
  defines "N \<equiv> fst ` set (r_renditions r)"
  shows "latestR r = (if N = {} then None else Some (Max N))"
    and "prevR r = (if N - {Max N} = {} then None else Some (Max (N - {Max N})))"
proof -
  note rn = renditionNums_sorted [OF assms(1)]
  have N: "N = set (renditionNums r)" by (simp add: N_def rn(2))
  show "latestR r = (if N = {} then None else Some (Max N))"
  proof (cases "renditionNums r")
    case Nil
    then show ?thesis by (simp add: latestR_def N)
  next
    case (Cons x xs)
    then show ?thesis
      using Max_sorted_desc(1) [of x xs] rn(1) by (simp add: latestR_def N)
  qed
  show "prevR r = (if N - {Max N} = {} then None else Some (Max (N - {Max N})))"
  proof (cases "renditionNums r")
    case Nil
    then show ?thesis by (simp add: prevR_def N)
  next
    case (Cons x xs)
    with rn(1) have sx: "sorted_wrt (\<lambda>a b. b < a) (x # xs)" by simp
    have mx: "Max N = x" and rest: "N - {x} = set xs"
      using Max_sorted_desc [OF sx] by (simp_all add: N Cons)
    show ?thesis
    proof (cases xs)
      case Nil
      then show ?thesis using Cons mx rest by (simp add: prevR_def)
    next
      case c2: (Cons y ys)
      from sx c2 have "sorted_wrt (\<lambda>a b. b < a) (y # ys)" by simp
      from Max_sorted_desc(1) [OF this] have "Max (set xs) = y" by (simp add: c2)
      then show ?thesis using Cons c2 mx rest by (simp add: prevR_def)
    qed
  qed
qed

lemma latestR_neq_prevR:
  assumes "row_ok r" and "latestR r = Some n"
  shows "prevR r \<noteq> Some n"
proof (cases "renditionNums r")
  case Nil
  then show ?thesis by (simp add: prevR_def)
next
  case (Cons x xs)
  with renditionNums_sorted(1) [OF assms(1)] have "sorted_wrt (\<lambda>a b. b < a) (x # xs)" by simp
  then show ?thesis using assms(2) Cons by (cases xs) (auto simp: latestR_def prevR_def)
qed

lemma set_pushEach: "set (pushEach f xs) = {y. \<exists>x\<in>set xs. f x = Some y}"
  by (induction xs) (auto split: option.splits)

lemma set_processInspectionData:
  assumes "uvpaintData insp = Some d"
  shows "set (processInspectionData insp) =
           {g. \<exists>kr\<in>set (collectRows d).
                 buildGroup (inspectionId insp) (collectOriginals d) kr = Some g}"
  using assms by (simp add: processInspectionData_def buildGroups_def set_js_sort set_pushEach)

lemma buildGroup_None_iff: "buildGroup i origs (k, r) = None \<longleftrightarrow> r_renditions r = []"
  by (simp add: buildGroup_def Let_def renditionNums_def length_js_sort)

subsection \<open>Fields of a built group\<close>

lemma row_of_key:
  assumes "rows_ok rows" and "(k, r) \<in> set rows"
  shows "map_of rows k = Some r" and "row_ok r"
proof -
  show "map_of rows k = Some r"
    using assms unfolding rows_ok_def by (intro map_of_is_SomeI) blast+
  then show "row_ok r" by (rule row_ok_lookup [OF assms(1)])
qed

lemma buildGroup_fields:
  assumes "buildGroup i origs (k, r) = Some g"
  shows "m_groupKey (g_metadata g) = k"
    and "m_renditions (g_metadata g) ! 0 = map_option RNum (prevR r)"
    and "m_renditions (g_metadata g) ! 1 = map_option RNum (latestR r)"
    and "m_renditions (g_metadata g) ! 2 \<in> {None, Some OG}"
    and "length (m_renditions (g_metadata g)) = 3"
    and "m_renditionData (g_metadata g) =
           [map_option renditionDatumOf (prev r), map_option renditionDatumOf (latest r), None]"
    and "g_images g ! 0 = safeUrl (case prev r of None \<Rightarrow> None | Some c \<Rightarrow> c_image c)"
    and "g_images g ! 1 = safeUrl (case latest r of None \<Rightarrow> None | Some c \<Rightarrow> c_image c)"
    and "m_statuses (g_metadata g) ! 0 =
           slotText (prev r) c_status (if prevR r \<noteq> None then ''N/A'' else ''Empty'')"
    and "m_sources (g_metadata g) ! 0 =
           slotText (prev r) c_source (if prevR r \<noteq> None then ''N/A'' else ''Empty'')"
    and "m_bucketType (g_metadata g) = r_bucketType r"
    and "m_pov (g_metadata g) = r_pov r"
proof -
  from assms have ne: "length (renditionNums r) \<noteq> 0"
    by (simp add: buildGroup_def Let_def split: if_splits)
  have "buildGroup i origs (k, r) = Some g \<longleftrightarrow> g = the (buildGroup i origs (k, r))"
    using assms by auto
  with assms have g: "g = the (buildGroup i origs (k, r))" by simp
  show "m_groupKey (g_metadata g) = k" unfolding g using ne by (simp add: buildGroup_def Let_def)
  show "m_renditions (g_metadata g) ! 0 = map_option RNum (prevR r)"
    unfolding g using ne by (simp add: buildGroup_def Let_def)
  show "m_renditions (g_metadata g) ! 1 = map_option RNum (latestR r)"
    unfolding g using ne by (simp add: buildGroup_def Let_def)
  show "m_renditions (g_metadata g) ! 2 \<in> {None, Some OG}"
    unfolding g using ne by (simp add: buildGroup_def Let_def)
  show "length (m_renditions (g_metadata g)) = 3"
    unfolding g using ne by (simp add: buildGroup_def Let_def)
  show "m_renditionData (g_metadata g) =
           [map_option renditionDatumOf (prev r), map_option renditionDatumOf (latest r), None]"
    unfolding g using ne by (simp add: buildGroup_def Let_def)
  show "g_images g ! 0 = safeUrl (case prev r of None \<Rightarrow> None | Some c \<Rightarrow> c_image c)"
    unfolding g using ne by (simp add: buildGroup_def Let_def)
  show "g_images g ! 1 = safeUrl (case latest r of None \<Rightarrow> None | Some c \<Rightarrow> c_image c)"
    unfolding g using ne by (simp add: buildGroup_def Let_def)
  show "m_statuses (g_metadata g) ! 0 =
           slotText (prev r) c_status (if prevR r \<noteq> None then ''N/A'' else ''Empty'')"
    unfolding g using ne by (simp add: buildGroup_def Let_def)
  show "m_sources (g_metadata g) ! 0 =
           slotText (prev r) c_source (if prevR r \<noteq> None then ''N/A'' else ''Empty'')"
    unfolding g using ne by (simp add: buildGroup_def Let_def)
  show "m_bucketType (g_metadata g) = r_bucketType r"
    unfolding g using ne by (simp add: buildGroup_def Let_def)
  show "m_pov (g_metadata g) = r_pov r"
    unfolding g using ne by (simp add: buildGroup_def Let_def)
qed


lemma group_of_row:
  assumes "uvpaintData insp = Some d" and "(key, r) \<in> set (collectRows d)"
    and "r_renditions r \<noteq> []"
  shows "\<exists>g\<in>set (processInspectionData insp).
           buildGroup (inspectionId insp) (collectOriginals d) (key, r) = Some g"
proof -
  from assms(3) obtain g
    where g: "buildGroup (inspectionId insp) (collectOriginals d) (key, r) = Some g"
    using buildGroup_None_iff [of "inspectionId insp" "collectOriginals d" key r] by auto
  then have "g \<in> set (processInspectionData insp)"
    using assms(2) unfolding set_processInspectionData [OF assms(1)] by blast
  with g show ?thesis by blast
qed

lemma row_of_group:
  assumes "uvpaintData insp = Some d" and "g \<in> set (processInspectionData insp)"
  shows "\<exists>key r. (key, r) \<in> set (collectRows d)
           \<and> buildGroup (inspectionId insp) (collectOriginals d) (key, r) = Some g"
  using assms(2) unfolding set_processInspectionData [OF assms(1)] by auto

lemma pickBestAt_in:
  assumes "map_of (r_renditions r) n = Some l" and "l \<noteq> []"
  shows "\<exists>c\<in>set l. pickBestAt r n = Some c"
proof -
  let ?s = "js_sort (\<lambda>a b. scoreCandidate b - scoreCandidate a) l"
  have "?s \<noteq> []" using assms(2) by (simp add: js_sort_eq_Nil)
  then obtain c cs where s: "?s = c # cs" by (cases ?s) auto
  then have "c \<in> set ?s" by simp
  then have "c \<in> set l" by (simp add: set_js_sort)
  moreover have "pickBestAt r n = Some c" using assms(1) s by (simp add: pickBestAt_def)
  ultimately show ?thesis by blast
qed


subsection \<open>Latest and Previous\<close>

text \<open>
  C2. For every POV group of an inspection, with \<open>N\<close> the set of rendition numbers it
  holds: if \<open>N\<close> is empty no group with its key is emitted; otherwise a group with its
  key is emitted whose rendition labels are exactly [Previous, Latest, Original] with
  Latest = \<open>Max N\<close>, Previous = the maximum of the rest (absent when there is no other
  number) and the third label \<^verbatim>\<open>"OG"\<close> or absent, so that no further rendition
  number appears in any slot; the Latest and Previous slots carry the candidates picked at
  those two numbers.
\<close>

theorem rendition_slot_policy:
  assumes "uvpaintData insp = Some d" and "(key, r) \<in> set (collectRows d)"
  shows "(fst ` set (r_renditions r) = {} \<longrightarrow>
            (\<forall>g\<in>set (processInspectionData insp). m_groupKey (g_metadata g) \<noteq> key))
       \<and> (fst ` set (r_renditions r) \<noteq> {} \<longrightarrow>
            (\<exists>g\<in>set (processInspectionData insp).
               m_groupKey (g_metadata g) = key
               \<and> length (m_renditions (g_metadata g)) = 3
               \<and> m_renditions (g_metadata g) ! 1 = Some (RNum (Max (fst ` set (r_renditions r))))
               \<and> m_renditions (g_metadata g) ! 0 =
                   (if fst ` set (r_renditions r) - {Max (fst ` set (r_renditions r))} = {} then None
                    else Some (RNum (Max (fst ` set (r_renditions r)
                                            - {Max (fst ` set (r_renditions r))}))))
               \<and> m_renditions (g_metadata g) ! 2 \<in> {None, Some OG}
               \<and> m_renditionData (g_metadata g) =
                   [map_option renditionDatumOf (prev r), map_option renditionDatumOf (latest r), None]
               \<and> latest r = pickBestAt r (Max (fst ` set (r_renditions r)))
               \<and> prev r =
                   (if fst ` set (r_renditions r) - {Max (fst ` set (r_renditions r))} = {} then None
                    else pickBestAt r (Max (fst ` set (r_renditions r)
                                            - {Max (fst ` set (r_renditions r))})))))"
proof -
  let ?N = "fst ` set (r_renditions r)"
  have ok: "rows_ok (collectRows d)" by (rule rows_ok_collectRows)
  note row = row_of_key [OF ok assms(2)]
  note lp = latestR_prevR_Max [OF row(2)]
  have empty: "\<forall>g\<in>set (processInspectionData insp). m_groupKey (g_metadata g) \<noteq> key"
    if "?N = {}"
  proof
    fix g assume "g \<in> set (processInspectionData insp)"
    from row_of_group [OF assms(1) this] obtain k' r'
      where kr: "(k', r') \<in> set (collectRows d)"
        and b: "buildGroup (inspectionId insp) (collectOriginals d) (k', r') = Some g" by blast
    show "m_groupKey (g_metadata g) \<noteq> key"
    proof
      assume "m_groupKey (g_metadata g) = key"
      with buildGroup_fields(1) [OF b] have "k' = key" by simp
      with row_of_key(1) [OF ok kr] row(1) have "r' = r" by simp
      moreover from that have "r_renditions r = []" by simp
      ultimately have "buildGroup (inspectionId insp) (collectOriginals d) (k', r') = None"
        by (simp add: buildGroup_None_iff)
      with b show False by simp
    qed
  qed
  have nonempty: "\<exists>g\<in>set (processInspectionData insp).
               m_groupKey (g_metadata g) = key
               \<and> length (m_renditions (g_metadata g)) = 3
               \<and> m_renditions (g_metadata g) ! 1 = Some (RNum (Max ?N))
               \<and> m_renditions (g_metadata g) ! 0 =
                   (if ?N - {Max ?N} = {} then None else Some (RNum (Max (?N - {Max ?N}))))
               \<and> m_renditions (g_metadata g) ! 2 \<in> {None, Some OG}
               \<and> m_renditionData (g_metadata g) =
                   [map_option renditionDatumOf (prev r), map_option renditionDatumOf (latest r), None]
               \<and> latest r = pickBestAt r (Max ?N)
               \<and> prev r = (if ?N - {Max ?N} = {} then None else pickBestAt r (Max (?N - {Max ?N})))"
    if ne: "?N \<noteq> {}"
  proof -
    from ne have "r_renditions r \<noteq> []" by auto
    from group_of_row [OF assms(1,2) this] obtain g
      where gin: "g \<in> set (processInspectionData insp)"
        and b: "buildGroup (inspectionId insp) (collectOriginals d) (key, r) = Some g" by blast
    note f = buildGroup_fields [OF b]
    have l: "latestR r = Some (Max ?N)" using lp(1) ne by simp
    have "m_renditions (g_metadata g) ! 1 = Some (RNum (Max ?N))" using f(3) l by simp
    moreover have "m_renditions (g_metadata g) ! 0 =
                   (if ?N - {Max ?N} = {} then None else Some (RNum (Max (?N - {Max ?N}))))"
      using f(2) lp(2) by simp
    moreover have "latest r = pickBestAt r (Max ?N)" using l by (simp add: latest_def)
    moreover have "prev r = (if ?N - {Max ?N} = {} then None else pickBestAt r (Max (?N - {Max ?N})))"
      using lp(2) by (simp add: prev_def)
    ultimately show ?thesis using gin f(1) f(4) f(5) f(6) by blast
  qed
  from empty nonempty show ?thesis by blast
qed


lemma ex135_rows:
  "\<exists>r r'. collectRows ex135_data = [(''SlimOverview_front_left'', r), (''Zoomer_rear_right'', r')]
      \<and> map fst (r_renditions r) = [1, 3, 5] \<and> r_renditions r' = []"
  by (simp add: ex135_data_def ex_defs ex_norm ex_trim helper_defs extract_defs Let_def)

lemma ex135_groups:
  "map (\<lambda>g. (m_groupKey (g_metadata g), m_renditions (g_metadata g), g_images g))
     (processInspectionData ex135)
   = [(''SlimOverview_front_left'', [Some (RNum 3), Some (RNum 5), None],
       [Some ''u1'', Some ''u2'', None])]"
  by (simp add: ex135_def ex135_data_def ex_defs ex_norm ex_trim helper_defs extract_defs
      original_defs group_defs Let_def)


text \<open>
  With the renditions 1, 3 and 5 present, Latest is 5 and Previous is 3; the second row of
  the same inspection holds no rendition number and no group is emitted for it.
\<close>

theorem rendition_slot_policy_witness:
  "uvpaintData ex135 = Some ex135_data
   \<and> hd (collectRows ex135_data) \<in> set (collectRows ex135_data)
   \<and> fst ` set (r_renditions (snd (hd (collectRows ex135_data)))) = {1, 3, 5}
   \<and> (\<exists>g\<in>set (processInspectionData ex135).
         m_groupKey (g_metadata g) = fst (hd (collectRows ex135_data))
         \<and> length (m_renditions (g_metadata g)) = 3
         \<and> m_renditions (g_metadata g) ! 1 = Some (RNum 5)
         \<and> m_renditions (g_metadata g) ! 0 = Some (RNum 3)
         \<and> m_renditions (g_metadata g) ! 2 \<in> {None, Some OG}
         \<and> m_renditionData (g_metadata g) =
             [map_option renditionDatumOf (prev (snd (hd (collectRows ex135_data)))),
              map_option renditionDatumOf (latest (snd (hd (collectRows ex135_data)))), None]
         \<and> latest (snd (hd (collectRows ex135_data)))
             = pickBestAt (snd (hd (collectRows ex135_data))) 5
         \<and> prev (snd (hd (collectRows ex135_data)))
             = pickBestAt (snd (hd (collectRows ex135_data))) 3)
   \<and> last (collectRows ex135_data) \<in> set (collectRows ex135_data)
   \<and> fst ` set (r_renditions (snd (last (collectRows ex135_data)))) = {}
   \<and> \<not> (\<exists>g\<in>set (processInspectionData ex135).
           m_groupKey (g_metadata g) = fst (last (collectRows ex135_data)))
   \<and> map (\<lambda>g. (m_groupKey (g_metadata g), m_renditions (g_metadata g), g_images g))
        (processInspectionData ex135)
      = [(''SlimOverview_front_left'', [Some (RNum 3), Some (RNum 5), None],
          [Some ''u1'', Some ''u2'', None])]"
proof -
  obtain r r' where rows:
      "collectRows ex135_data = [(''SlimOverview_front_left'', r), (''Zoomer_rear_right'', r')]"
    and keys: "map fst (r_renditions r) = [1, 3, 5]" and none: "r_renditions r' = []"
    using ex135_rows by (elim exE conjE)
  let ?r = "snd (hd (collectRows ex135_data))"
  let ?r' = "snd (last (collectRows ex135_data))"
  have h1: "uvpaintData ex135 = Some ex135_data" by (simp add: ex135_def)
  have h2: "hd (collectRows ex135_data) \<in> set (collectRows ex135_data)" by (simp add: rows)
  have h2': "(fst (hd (collectRows ex135_data)), ?r) \<in> set (collectRows ex135_data)"
    by (simp add: rows)
  have N: "fst ` set (r_renditions ?r) = {1, 3, 5}"
    using arg_cong [OF keys, of set] by (simp add: rows)
  have M: "Max {1, 3, 5 :: int} = 5" "{1, 3, 5 :: int} - {5} = {1, 3}" "Max {1, 3 :: int} = 3"
    by auto
  have ne: "fst ` set (r_renditions ?r) \<noteq> {}" by (simp add: N)
  from conjunct2 [OF rendition_slot_policy [OF h1 h2']] ne
  have "\<exists>g\<in>set (processInspectionData ex135).
               m_groupKey (g_metadata g) = fst (hd (collectRows ex135_data))
               \<and> length (m_renditions (g_metadata g)) = 3
               \<and> m_renditions (g_metadata g) ! 1 = Some (RNum (Max (fst ` set (r_renditions ?r))))
               \<and> m_renditions (g_metadata g) ! 0 =
                   (if fst ` set (r_renditions ?r) - {Max (fst ` set (r_renditions ?r))} = {} then None
                    else Some (RNum (Max (fst ` set (r_renditions ?r)
                                            - {Max (fst ` set (r_renditions ?r))}))))
               \<and> m_renditions (g_metadata g) ! 2 \<in> {None, Some OG}
               \<and> m_renditionData (g_metadata g) =
                   [map_option renditionDatumOf (prev ?r), map_option renditionDatumOf (latest ?r), None]
               \<and> latest ?r = pickBestAt ?r (Max (fst ` set (r_renditions ?r)))
               \<and> prev ?r =
                   (if fst ` set (r_renditions ?r) - {Max (fst ` set (r_renditions ?r))} = {} then None
                    else pickBestAt ?r (Max (fst ` set (r_renditions ?r)
                                            - {Max (fst ` set (r_renditions ?r))})))"
    by (rule mp)
  then have c1: "\<exists>g\<in>set (processInspectionData ex135).
         m_groupKey (g_metadata g) = fst (hd (collectRows ex135_data))
         \<and> length (m_renditions (g_metadata g)) = 3
         \<and> m_renditions (g_metadata g) ! 1 = Some (RNum 5)
         \<and> m_renditions (g_metadata g) ! 0 = Some (RNum 3)
         \<and> m_renditions (g_metadata g) ! 2 \<in> {None, Some OG}
         \<and> m_renditionData (g_metadata g) =
             [map_option renditionDatumOf (prev ?r), map_option renditionDatumOf (latest ?r), None]
         \<and> latest ?r = pickBestAt ?r 5
         \<and> prev ?r = pickBestAt ?r 3"
    unfolding N M by simp
  have h3: "last (collectRows ex135_data) \<in> set (collectRows ex135_data)" by (simp add: rows)
  have h3': "(fst (last (collectRows ex135_data)), ?r') \<in> set (collectRows ex135_data)"
    by (simp add: rows)
  have N0: "fst ` set (r_renditions ?r') = {}" by (simp add: rows none)
  from conjunct1 [OF rendition_slot_policy [OF h1 h3']] N0
  have "\<forall>g\<in>set (processInspectionData ex135).
          m_groupKey (g_metadata g) \<noteq> fst (last (collectRows ex135_data))"
    by (rule mp)
  then have c2: "\<not> (\<exists>g\<in>set (processInspectionData ex135).
           m_groupKey (g_metadata g) = fst (last (collectRows ex135_data)))"
    by blast
  show ?thesis by (intro conjI h1 h2 N c1 h3 N0 c2 ex135_groups)
qed


text \<open>
  C10. A POV group that holds exactly one rendition number \<open>n\<close> is emitted: its Latest
  slot is filled by a candidate of that rendition, and its Previous slot is empty, with
  \<^verbatim>\<open>images[0] = null\<close>, \<^verbatim>\<open>renditions[0] = null\<close>,
  \<^verbatim>\<open>statuses[0] = "Empty"\<close> and \<^verbatim>\<open>sources[0] = "Empty"\<close>.
\<close>

theorem single_rendition_group:
  assumes "uvpaintData insp = Some d" and "(key, r) \<in> set (collectRows d)"
    and "fst ` set (r_renditions r) = {n}"
  shows "\<exists>g\<in>set (processInspectionData insp). \<exists>c\<in>set (candsAt (collectRows d) key n).
           m_groupKey (g_metadata g) = key
           \<and> latest r = Some c
           \<and> m_renditionData (g_metadata g) ! 1 = Some (renditionDatumOf c)
           \<and> g_images g ! 1 = safeUrl (c_image c)
           \<and> m_renditions (g_metadata g) ! 1 = Some (RNum n)
           \<and> g_images g ! 0 = None
           \<and> m_renditions (g_metadata g) ! 0 = None
           \<and> m_renditionData (g_metadata g) ! 0 = None
           \<and> m_statuses (g_metadata g) ! 0 = ''Empty''
           \<and> m_sources (g_metadata g) ! 0 = ''Empty''"
proof -
  let ?N = "fst ` set (r_renditions r)"
  have ok: "rows_ok (collectRows d)" by (rule rows_ok_collectRows)
  note row = row_of_key [OF ok assms(2)]
  note lp = latestR_prevR_Max [OF row(2)]
  have l: "latestR r = Some n" and p: "prevR r = None" using lp assms(3) by simp_all
  have "n \<in> ?N" using assms(3) by simp
  then obtain cs where "(n, cs) \<in> set (r_renditions r)" by auto
  moreover have d: "distinct (map fst (r_renditions r))" using row(2) by (simp add: row_ok_def)
  ultimately have m: "map_of (r_renditions r) n = Some cs" by (intro map_of_is_SomeI)
  have "cs \<noteq> []" using row(2) \<open>(n, cs) \<in> set (r_renditions r)\<close> by (auto simp: row_ok_def)
  from pickBestAt_in [OF m this] obtain c where c: "c \<in> set cs" "pickBestAt r n = Some c" by blast
  have cands: "candsAt (collectRows d) key n = cs" using row(1) m by (simp add: candsAt_def)
  have lat: "latest r = Some c" using l c(2) by (simp add: latest_def)
  have pr: "prev r = None" using p by (simp add: prev_def)
  from assms(3) have "r_renditions r \<noteq> []" by auto
  from group_of_row [OF assms(1,2) this] obtain g
    where gin: "g \<in> set (processInspectionData insp)"
      and b: "buildGroup (inspectionId insp) (collectOriginals d) (key, r) = Some g" by blast
  note f = buildGroup_fields [OF b]
  have "m_groupKey (g_metadata g) = key" by (rule f(1))
  moreover have "m_renditionData (g_metadata g) ! 1 = Some (renditionDatumOf c)"
    using f(6) lat by simp
  moreover have "g_images g ! 1 = safeUrl (c_image c)" using f(8) lat by simp
  moreover have "m_renditions (g_metadata g) ! 1 = Some (RNum n)" using f(3) l by simp
  moreover have "g_images g ! 0 = None" using f(7) pr by (simp add: safeUrl_def)
  moreover have "m_renditions (g_metadata g) ! 0 = None" using f(2) p by simp
  moreover have "m_renditionData (g_metadata g) ! 0 = None" using f(6) pr by simp
  moreover have "m_statuses (g_metadata g) ! 0 = ''Empty''" using f(9) pr p by (simp add: slotText_def)
  moreover have "m_sources (g_metadata g) ! 0 = ''Empty''" using f(10) pr p by (simp add: slotText_def)
  ultimately show ?thesis using gin c(1) cands lat by blast
qed

lemma ex_single_rows:
  "\<exists>r. collectRows ex_single_data = [(''Zoomer_rear_right'', r)] \<and> map fst (r_renditions r) = [3]"
  by (simp add: ex_single_data_def ex_defs ex_norm ex_trim helper_defs extract_defs Let_def)

lemma ex_single_groups:
  "map (\<lambda>g. (g_images g, m_renditions (g_metadata g), m_statuses (g_metadata g),
              m_sources (g_metadata g)))
     (processInspectionData ex_single)
   = [([None, Some ''u1'', None], [None, Some (RNum 3), None], [''Empty'', ''N/A'', ''Empty''],
       [''Empty'', ''images'', ''Empty''])]"
  by (simp add: ex_single_def ex_single_data_def ex_defs ex_norm ex_trim helper_defs extract_defs
      original_defs group_defs Let_def)

theorem single_rendition_group_witness:
  "uvpaintData ex_single = Some ex_single_data
   \<and> hd (collectRows ex_single_data) \<in> set (collectRows ex_single_data)
   \<and> fst ` set (r_renditions (snd (hd (collectRows ex_single_data)))) = {3}
   \<and> (\<exists>g\<in>set (processInspectionData ex_single).
        \<exists>c\<in>set (candsAt (collectRows ex_single_data) (fst (hd (collectRows ex_single_data))) 3).
           m_groupKey (g_metadata g) = fst (hd (collectRows ex_single_data))
           \<and> latest (snd (hd (collectRows ex_single_data))) = Some c
           \<and> m_renditionData (g_metadata g) ! 1 = Some (renditionDatumOf c)
           \<and> g_images g ! 1 = safeUrl (c_image c)
           \<and> m_renditions (g_metadata g) ! 1 = Some (RNum 3)
           \<and> g_images g ! 0 = None
           \<and> m_renditions (g_metadata g) ! 0 = None
           \<and> m_renditionData (g_metadata g) ! 0 = None
           \<and> m_statuses (g_metadata g) ! 0 = ''Empty''
           \<and> m_sources (g_metadata g) ! 0 = ''Empty'')
   \<and> map (\<lambda>g. (g_images g, m_renditions (g_metadata g), m_statuses (g_metadata g),
              m_sources (g_metadata g)))
     (processInspectionData ex_single)
   = [([None, Some ''u1'', None], [None, Some (RNum 3), None], [''Empty'', ''N/A'', ''Empty''],
       [''Empty'', ''images'', ''Empty''])]"
proof -
  obtain r where rows: "collectRows ex_single_data = [(''Zoomer_rear_right'', r)]"
    and keys: "map fst (r_renditions r) = [3]"
    using ex_single_rows by (elim exE conjE)
  have h1: "uvpaintData ex_single = Some ex_single_data" by (simp add: ex_single_def)
  have h2: "hd (collectRows ex_single_data) \<in> set (collectRows ex_single_data)"
    by (simp add: rows)
  have h2': "(fst (hd (collectRows ex_single_data)), snd (hd (collectRows ex_single_data)))
               \<in> set (collectRows ex_single_data)" by (simp add: rows)
  have N: "fst ` set (r_renditions (snd (hd (collectRows ex_single_data)))) = {3}"
    using arg_cong [OF keys, of set] by (simp add: rows)
  note c = single_rendition_group [OF h1 h2' N]
  show ?thesis by (intro conjI h1 h2 N c ex_single_groups)
qed

subsection \<open>Published flag and final order\<close>











subsection \<open>Serial numbers are ignored for grouping\<close>

lemma mem_candsAt:
  assumes "(s, df, e) \<in> set (tagged d)" and "entryOf s df e = Some (k, n, c)"
  shows "c \<in> set (candsAt (collectRows d) k n)"
proof -
  have "c \<in> set (contrib k n (entryOf s df e))" using assms(2) by (simp add: contrib_def)
  then have "c \<in> set ((\<lambda>(src, dflt, img). contrib k n (entryOf src dflt img)) (s, df, e))"
    by simp
  then show ?thesis
    unfolding candsAt_collectRows using assms(1) by (auto simp del: split_paired_All)
qed

lemma candsAt_lookup:
  assumes "c \<in> set (candsAt rows k n)"
  shows "\<exists>r. map_of rows k = Some r \<and> map_of (r_renditions r) n = Some (candsAt rows k n)"
proof (cases "map_of rows k")
  case None
  then show ?thesis using assms by (simp add: candsAt_def)
next
  case (Some r)
  then show ?thesis using assms by (cases "map_of (r_renditions r) n") (simp_all add: candsAt_def)
qed

lemma createPOVKey_serial:
  "createPOVKey bt (p\<lparr>serialNumber := sn\<rparr>) = createPOVKey bt p"
  by (simp add: createPOVKey_def)

lemma entryOf_serial:
  assumes "pov e1 = Some p" and "entryOf s1 d1 e1 = Some (k, n, c1)"
    and "rendition e1 \<noteq> None \<or> d1 = d2"
  shows "\<exists>c2. entryOf s2 d2 (e1\<lparr>pov := Some (p\<lparr>serialNumber := sn\<rparr>)\<rparr>) = Some (k, n, c2)"
proof -
  from assms(2) have na: "imageType e1 \<noteq> Some ''Artemis''"
    by (auto simp: entryOf_def split: if_splits)
  from assms(1,2) na obtain bt where bt: "bucketTypeOf (imageType e1) = Some bt"
    by (cases "bucketTypeOf (imageType e1)") (auto simp: entryOf_def)
  from assms(1,2) na bt have r1: "a_rendition (putArgsOf s1 d1 e1) = Finite n"
    and k: "k = createPOVKey bt p"
    by (auto simp: entryOf_def split: jsnum.splits)
  have "a_rendition (putArgsOf s2 d2 (e1\<lparr>pov := Some (p\<lparr>serialNumber := sn\<rparr>)\<rparr>)) = Finite n"
    using r1 assms(3) by (auto simp: putArgsOf_def split: option.splits)
  then show ?thesis
    using na bt k by (simp add: entryOf_def createPOVKey_serial)
qed

lemma surfacedAt_pick:
  assumes "row_ok r"
  shows "surfacedAt r n =
           (if latestR r = Some n \<or> prevR r = Some n then [pickBestAt r n] else [])"
proof (cases "latestR r = Some n")
  case True
  with latestR_neq_prevR [OF assms] have "prevR r \<noteq> Some n" by simp
  with True show ?thesis by (simp add: surfacedAt_def latest_def)
next
  case False
  then show ?thesis by (simp add: surfacedAt_def prev_def)
qed

text \<open>
  C7 (as the code has it). Let two raw entries differ in the serial number of their POV
  only, let the first yield a candidate \<open>c1\<close> at group key \<open>k\<close> and rendition
  \<open>n\<close>, and let the second have the same rendition number (the field is present, or
  both entries come from collections with the same default). Then the second yields a
  candidate \<open>c2\<close> at the same key and rendition, and both lie in one candidate list
  \<open>l\<close>. The group fills a slot from that list only when \<open>n\<close> is its highest
  (Latest) or second-highest (Previous) rendition number, and then exactly one slot, with
  the candidate of highest score in \<open>l\<close>, the earliest on a tie. That candidate is one
  of the pair, the higher-scored of the two, when no other candidate of \<open>l\<close> scores as
  high.
\<close>

theorem serial_number_collapse:
  assumes "(s1, d1, e1) \<in> set (tagged d)"
    and "(s2, d2, e1\<lparr>pov := Some (p\<lparr>serialNumber := sn\<rparr>)\<rparr>) \<in> set (tagged d)"
    and "pov e1 = Some p"
    and "entryOf s1 d1 e1 = Some (k, n, c1)"
    and "rendition e1 \<noteq> None \<or> d1 = d2"
  shows "\<exists>c2 r l.
           entryOf s2 d2 (e1\<lparr>pov := Some (p\<lparr>serialNumber := sn\<rparr>)\<rparr>) = Some (k, n, c2)
           \<and> map_of (collectRows d) k = Some r
           \<and> map_of (r_renditions r) n = Some l
           \<and> c1 \<in> set l \<and> c2 \<in> set l
           \<and> surfacedAt r n =
               (if latestR r = Some n \<or> prevR r = Some n then [pickBestAt r n] else [])
           \<and> (\<exists>i<length l. pickBestAt r n = Some (l ! i)
                 \<and> (\<forall>j<length l. scoreCandidate (l ! j) \<le> scoreCandidate (l ! i))
                 \<and> (\<forall>j<i. scoreCandidate (l ! j) < scoreCandidate (l ! i)))
           \<and> ((\<forall>c\<in>set l. c = c1 \<or> c = c2
                   \<or> scoreCandidate c < max (scoreCandidate c1) (scoreCandidate c2))
                \<longrightarrow> (\<exists>b. pickBestAt r n = Some b \<and> (b = c1 \<or> b = c2)
                       \<and> scoreCandidate b = max (scoreCandidate c1) (scoreCandidate c2)))"
proof -
  let ?e2 = "e1\<lparr>pov := Some (p\<lparr>serialNumber := sn\<rparr>)\<rparr>"
  let ?l = "candsAt (collectRows d) k n"
  from entryOf_serial [where ?s2.0 = s2 and sn = sn, OF assms(3,4,5)] obtain c2
    where c2: "entryOf s2 d2 ?e2 = Some (k, n, c2)" by (elim exE)
  have in1: "c1 \<in> set ?l" by (rule mem_candsAt [OF assms(1,4)])
  have in2: "c2 \<in> set ?l" by (rule mem_candsAt [OF assms(2) c2])
  from candsAt_lookup [OF in1] obtain r
    where r: "map_of (collectRows d) k = Some r" and l: "map_of (r_renditions r) n = Some ?l"
    by (elim exE conjE)
  have ok: "row_ok r" by (rule row_ok_lookup [OF rows_ok_collectRows r])
  have ne: "?l \<noteq> []" using in1 by auto
  let ?s = "js_sort (\<lambda>a b. scoreCandidate b - scoreCandidate a) ?l"
  have "?s \<noteq> []" using ne by (simp add: js_sort_eq_Nil)
  then have pick: "pickBestAt r n = Some (hd ?s)"
    using l by (cases ?s) (simp_all add: pickBestAt_def)
  from hd_js_sort_first_max [OF ne, of scoreCandidate] obtain i
    where i: "i < length ?l" and hd: "hd ?s = ?l ! i"
      and mx: "\<forall>j<length ?l. scoreCandidate (?l ! j) \<le> scoreCandidate (?l ! i)"
      and first: "\<forall>j<i. scoreCandidate (?l ! j) < scoreCandidate (?l ! i)"
    by (elim exE conjE)
  have best: "\<exists>i<length ?l. pickBestAt r n = Some (?l ! i)
                 \<and> (\<forall>j<length ?l. scoreCandidate (?l ! j) \<le> scoreCandidate (?l ! i))
                 \<and> (\<forall>j<i. scoreCandidate (?l ! j) < scoreCandidate (?l ! i))"
    using i hd mx first pick by auto
  have pair: "\<exists>b. pickBestAt r n = Some b \<and> (b = c1 \<or> b = c2)
                 \<and> scoreCandidate b = max (scoreCandidate c1) (scoreCandidate c2)"
    if others: "\<forall>c\<in>set ?l. c = c1 \<or> c = c2
                  \<or> scoreCandidate c < max (scoreCandidate c1) (scoreCandidate c2)"
  proof -
    let ?b = "?l ! i"
    have all: "scoreCandidate c \<le> scoreCandidate ?b" if "c \<in> set ?l" for c
      using that mx by (auto simp: in_set_conv_nth)
    have ge: "max (scoreCandidate c1) (scoreCandidate c2) \<le> scoreCandidate ?b"
      using all [OF in1] all [OF in2] by simp
    have bin: "?b \<in> set ?l" using i by simp
    with others ge have b12: "?b = c1 \<or> ?b = c2" by auto
    then have "scoreCandidate ?b \<le> max (scoreCandidate c1) (scoreCandidate c2)" by auto
    with ge have "scoreCandidate ?b = max (scoreCandidate c1) (scoreCandidate c2)"
      by (rule order_antisym [rotated])
    with b12 pick hd show ?thesis by simp
  qed
  have imp: "(\<forall>c\<in>set ?l. c = c1 \<or> c = c2
                   \<or> scoreCandidate c < max (scoreCandidate c1) (scoreCandidate c2))
                \<longrightarrow> (\<exists>b. pickBestAt r n = Some b \<and> (b = c1 \<or> b = c2)
                       \<and> scoreCandidate b = max (scoreCandidate c1) (scoreCandidate c2))"
    by (rule impI) (rule pair)
  have body: "entryOf s2 d2 ?e2 = Some (k, n, c2)
           \<and> map_of (collectRows d) k = Some r
           \<and> map_of (r_renditions r) n = Some ?l
           \<and> c1 \<in> set ?l \<and> c2 \<in> set ?l
           \<and> surfacedAt r n =
               (if latestR r = Some n \<or> prevR r = Some n then [pickBestAt r n] else [])
           \<and> (\<exists>i<length ?l. pickBestAt r n = Some (?l ! i)
                 \<and> (\<forall>j<length ?l. scoreCandidate (?l ! j) \<le> scoreCandidate (?l ! i))
                 \<and> (\<forall>j<i. scoreCandidate (?l ! j) < scoreCandidate (?l ! i)))
           \<and> ((\<forall>c\<in>set ?l. c = c1 \<or> c = c2
                   \<or> scoreCandidate c < max (scoreCandidate c1) (scoreCandidate c2))
                \<longrightarrow> (\<exists>b. pickBestAt r n = Some b \<and> (b = c1 \<or> b = c2)
                       \<and> scoreCandidate b = max (scoreCandidate c1) (scoreCandidate c2)))"
    by (intro conjI c2 r l in1 in2 surfacedAt_pick [OF ok] best imp)
  show ?thesis
    by (rule exI [of _ c2], rule exI [of _ r], rule exI [of _ ?l]) (rule body)
qed

lemma ex_serial_entry:
  "entryOf ''images'' 3 ex_serial_e1 =
     Some (''SlimOverview_front_left'', 3,
           mkCandidate (putArgsOf ''images'' 3 ex_serial_e1) SlimOverview
             (ex_pov ''Front'' ''Left'' (Some 1)))"
  by (simp add: entryOf_def ex_serial_e1_def ex_defs ex_norm putArgsOf_def createPOVKey_def
      helper_defs bucketName_def Let_def)

lemma ex_serial_groups:
  "map (\<lambda>g. (m_renditions (g_metadata g), g_images g, m_sources (g_metadata g)))
     (processInspectionData \<lparr>inspectionId = ''i1'', uvpaintData = Some ex_serial_data\<rparr>)
   = [([None, Some (RNum 3), None], [None, Some ''u1'', None], [''Empty'', ''images'', ''Empty''])]"
  by (simp add: ex_serial_data_def ex_serial_e1_def ex_serial_e2_def ex_defs ex_norm ex_trim
      helper_defs extract_defs original_defs group_defs Let_def)


theorem serial_number_collapse_witness:
  "(''images'', 3, ex_serial_e1) \<in> set (tagged ex_serial_data)
   \<and> (''uvpaintHistoryImages'', 1,
        ex_serial_e1\<lparr>pov := Some ((ex_pov ''Front'' ''Left'' (Some 1))\<lparr>serialNumber := Some 2\<rparr>)\<rparr>)
       \<in> set (tagged ex_serial_data)
   \<and> pov ex_serial_e1 = Some (ex_pov ''Front'' ''Left'' (Some 1))
   \<and> entryOf ''images'' 3 ex_serial_e1 =
        Some (''SlimOverview_front_left'', 3,
              mkCandidate (putArgsOf ''images'' 3 ex_serial_e1) SlimOverview
                (ex_pov ''Front'' ''Left'' (Some 1)))
   \<and> rendition ex_serial_e1 \<noteq> None
   \<and> (\<exists>c2 r l.
         entryOf ''uvpaintHistoryImages'' 1
           (ex_serial_e1\<lparr>pov := Some ((ex_pov ''Front'' ''Left'' (Some 1))\<lparr>serialNumber := Some 2\<rparr>)\<rparr>)
           = Some (''SlimOverview_front_left'', 3, c2)
         \<and> map_of (collectRows ex_serial_data) ''SlimOverview_front_left'' = Some r
         \<and> map_of (r_renditions r) 3 = Some l
         \<and> mkCandidate (putArgsOf ''images'' 3 ex_serial_e1) SlimOverview
              (ex_pov ''Front'' ''Left'' (Some 1)) \<in> set l
         \<and> c2 \<in> set l
         \<and> surfacedAt r 3 =
             (if latestR r = Some 3 \<or> prevR r = Some 3 then [pickBestAt r 3] else [])
         \<and> (\<exists>i<length l. pickBestAt r 3 = Some (l ! i)
               \<and> (\<forall>j<length l. scoreCandidate (l ! j) \<le> scoreCandidate (l ! i))
               \<and> (\<forall>j<i. scoreCandidate (l ! j) < scoreCandidate (l ! i)))
         \<and> ((\<forall>c\<in>set l. c = mkCandidate (putArgsOf ''images'' 3 ex_serial_e1) SlimOverview
                                (ex_pov ''Front'' ''Left'' (Some 1))
                 \<or> c = c2
                 \<or> scoreCandidate c <
                     max (scoreCandidate (mkCandidate (putArgsOf ''images'' 3 ex_serial_e1)
                            SlimOverview (ex_pov ''Front'' ''Left'' (Some 1))))
                         (scoreCandidate c2))
              \<longrightarrow> (\<exists>b. pickBestAt r 3 = Some b
                     \<and> (b = mkCandidate (putArgsOf ''images'' 3 ex_serial_e1) SlimOverview
                              (ex_pov ''Front'' ''Left'' (Some 1))
                         \<or> b = c2)
                     \<and> scoreCandidate b =
                         max (scoreCandidate (mkCandidate (putArgsOf ''images'' 3 ex_serial_e1)
                                SlimOverview (ex_pov ''Front'' ''Left'' (Some 1))))
                             (scoreCandidate c2))))
   \<and> map (\<lambda>g. (m_renditions (g_metadata g), g_images g, m_sources (g_metadata g)))
        (processInspectionData \<lparr>inspectionId = ''i1'', uvpaintData = Some ex_serial_data\<rparr>)
      = [([None, Some (RNum 3), None], [None, Some ''u1'', None],
          [''Empty'', ''images'', ''Empty''])]"
proof -
  have h1: "(''images'', 3, ex_serial_e1) \<in> set (tagged ex_serial_data)"
    by (simp add: tagged_def ex_serial_data_def)
  have h2: "(''uvpaintHistoryImages'', 1,
        ex_serial_e1\<lparr>pov := Some ((ex_pov ''Front'' ''Left'' (Some 1))\<lparr>serialNumber := Some 2\<rparr>)\<rparr>)
       \<in> set (tagged ex_serial_data)"
    by (simp add: tagged_def ex_serial_data_def ex_serial_e2_def)
  have h3: "pov ex_serial_e1 = Some (ex_pov ''Front'' ''Left'' (Some 1))"
    by (simp add: ex_serial_e1_def ex_image_def)
  have h5: "rendition ex_serial_e1 \<noteq> None" by (simp add: ex_serial_e1_def ex_image_def)
  have h5': "rendition ex_serial_e1 \<noteq> None \<or> (3::int) = 1" using h5 by simp
  note c = serial_number_collapse [OF h1 h2 h3 ex_serial_entry h5']
  show ?thesis by (intro conjI h1 h2 h3 ex_serial_entry h5 c ex_serial_groups)
qed


text \<open>
  The claim as written lets group assembly surface one of the pair in every case. Here
  the pair shares rendition 1 of a group that also holds the renditions 2 and 3: both
  candidates are in one list, and no slot is filled from it.
\<close>

theorem serial_pair_not_surfaced:
  "map (\<lambda>(k, r). (k, map (\<lambda>(n, l). (n, map (\<lambda>c. (c_image c, serialNumber (c_pov c))) l))
                       (r_renditions r), surfacedAt r 1))
     (collectRows ex_serial3_data)
   = [(''SlimOverview_front_left'',
       [(1, [(Some ''u0'', Some 1), (Some ''u0'', Some 2)]),
        (2, [(Some ''u1'', None)]),
        (3, [(Some ''u2'', None)])],
       [])]
   \<and> map (\<lambda>g. (m_renditions (g_metadata g), g_images g))
        (processInspectionData \<lparr>inspectionId = ''i1'', uvpaintData = Some ex_serial3_data\<rparr>)
      = [([Some (RNum 2), Some (RNum 3), None], [Some ''u1'', Some ''u2'', None])]"
  by (simp add: ex_serial3_data_def ex_defs ex_norm ex_trim helper_defs extract_defs
      original_defs group_defs surfacedAt_def Let_def)

subsection \<open>The originals index\<close>

















subsection \<open>Percent change of the action counts\<close>








lemma ex_negative_groups:
  "map (\<lambda>g. m_actions (g_metadata g)) (processInspectionData ex_negative)
     = [[Some 0, Some (- 1), None]]"
  by (simp add: ex_negative_def ex_defs ex_norm ex_trim helper_defs extract_defs
      original_defs group_defs Let_def)








subsection \<open>The alignment validator\<close>













end
